theory Spec2Isabelle
  imports Complex_Main "HOL-Library.AList" "HOL-Library.Multiset"
begin

section \<open>Python values\<close>

text \<open>
  A Python \<open>str\<close> is the list of its code points, so that \<open>strip\<close>, \<open>split\<close> and the
  em dash of the rank label mean what they mean in Python. \<open>py\<close> turns an ASCII literal of
  this theory into such a string.
\<close>

type_synonym pystr = "nat list"

definition py :: "string \<Rightarrow> pystr" where
  "py s = map of_char s"

text \<open>
  The values of the fields of a JSON object, as \<open>json.load\<close> and \<open>resp.json()\<close> build
  them: \<open>None\<close>, a bool, an int or a str. Floats and nested containers inside a field
  are left out: the records of this program (a league entry, an account, a roster
  record) have scalar fields only. A Python dict is an association list in insertion
  order; \<open>map_of\<close> is the lookup, \<open>AList.update\<close> the assignment \<open>d[k] = v\<close>.
\<close>

datatype pyval = PNone | PBool bool | PInt int | PStr pystr

type_synonym pydict = "(pystr \<times> pyval) list"

datatype json = JScalar pyval | JObject pydict | JArray "json list"

text \<open>
  The exceptions the modelled code can raise. Every function that can raise returns
  \<open>py_error + 'a\<close>, \<open>Inl\<close> the exception that propagates to its caller.
  \<open>ClientError\<close> stands for every exception of a request other than a connector
  error (a timeout, a broken connection), \<open>DecodeError\<close> for \<open>resp.json()\<close> failing.
\<close>

datatype py_error =
  KeyError | TypeError | AttributeError | ValueError | UnicodeEncodeError | OSError
  | ClientConnectorError | ClientResponseError | ClientError | DecodeError

text \<open>Truth value testing (\<open>if x\<close>, \<open>not x\<close>, \<open>x or y\<close>).\<close>

fun truthy :: "pyval \<Rightarrow> bool" where
  "truthy PNone = False"
| "truthy (PBool b) = b"
| "truthy (PInt n) = (n \<noteq> 0)"
| "truthy (PStr s) = (s \<noteq> [])"

fun json_truthy :: "json \<Rightarrow> bool" where
  "json_truthy (JScalar v) = truthy v"
| "json_truthy (JObject d) = (d \<noteq> [])"
| "json_truthy (JArray xs) = (xs \<noteq> [])"

text \<open>\<open>d.get(k, default)\<close>\<close>

definition dict_get :: "('k \<times> 'v) list \<Rightarrow> 'k \<Rightarrow> 'v \<Rightarrow> 'v" where
  "dict_get d k dflt = (case map_of d k of None \<Rightarrow> dflt | Some v \<Rightarrow> v)"

text \<open>The right operand of \<open>int + x\<close>: an int or a bool adds, anything else raises.\<close>

fun add_int :: "int \<Rightarrow> pyval \<Rightarrow> py_error + int" where
  "add_int n (PInt m) = Inr (n + m)"
| "add_int n (PBool b) = Inr (n + (if b then 1 else 0))"
| "add_int n PNone = Inl TypeError"
| "add_int n (PStr s) = Inl TypeError"

section \<open>Config and ranking tables\<close>

definition DEFAULT_QUEUE :: pystr where
  "DEFAULT_QUEUE = py ''RANKED_SOLO_5x5''"

definition TIER_ORDER :: "(pystr \<times> int) list" where
  "TIER_ORDER =
     [(py ''IRON'', 0), (py ''BRONZE'', 1), (py ''SILVER'', 2), (py ''GOLD'', 3),
      (py ''PLATINUM'', 4), (py ''EMERALD'', 5), (py ''DIAMOND'', 6), (py ''MASTER'', 7),
      (py ''GRANDMASTER'', 8), (py ''CHALLENGER'', 9)]"

definition DIV_ORDER :: "(pystr \<times> int) list" where
  "DIV_ORDER = [(py ''IV'', 0), (py ''III'', 1), (py ''II'', 2), (py ''I'', 3)]"

text \<open>\<open>TIER_ORDER[tier]\<close>: a subscript, \<open>KeyError\<close> for a key the table lacks.\<close>

definition tier_subscript :: "pyval \<Rightarrow> py_error + int" where
  "tier_subscript tier =
     (case tier of
        PStr t \<Rightarrow> (case map_of TIER_ORDER t of None \<Rightarrow> Inl KeyError | Some r \<Rightarrow> Inr r)
      | _ \<Rightarrow> Inl KeyError)"

text \<open>\<open>DIV_ORDER.get(div, 0)\<close>\<close>

definition div_get :: "pyval \<Rightarrow> int" where
  "div_get d = (case d of PStr s \<Rightarrow> dict_get DIV_ORDER s 0 | _ \<Rightarrow> 0)"

text \<open>\<open>tier in ("MASTER", "GRANDMASTER", "CHALLENGER")\<close>\<close>

definition is_apex :: "pyval \<Rightarrow> bool" where
  "is_apex tier =
     (tier = PStr (py ''MASTER'') \<or> tier = PStr (py ''GRANDMASTER'')
      \<or> tier = PStr (py ''CHALLENGER''))"

section \<open>Ranking utils\<close>

definition score_for_sort :: "pydict option \<Rightarrow> py_error + int" where
  "score_for_sort entry =
     (case entry of
        None \<Rightarrow> Inr (- 1)
      | Some e \<Rightarrow>
          if e = [] then Inr (- 1)
          else
            let tier = dict_get e (py ''tier'') (PStr (py ''IRON''));
                lp = dict_get e (py ''leaguePoints'') (PInt 0)
            in if is_apex tier then
                 (case tier_subscript tier of
                    Inl err \<Rightarrow> Inl err
                  | Inr r \<Rightarrow> add_int (r * 4000) lp)
               else
                 let dv = dict_get e (py ''rank'') (PStr (py ''IV''))
                 in (case tier_subscript tier of
                       Inl err \<Rightarrow> Inl err
                     | Inr r \<Rightarrow> add_int (r * 400 + div_get dv * 100) lp))"


text \<open>\<open>str(x)\<close>, which is also how an f-string renders a field.\<close>

fun str_nat :: "nat \<Rightarrow> pystr" where
  "str_nat n = (if n < 10 then [48 + n] else str_nat (n div 10) @ [48 + n mod 10])"

definition str_int :: "int \<Rightarrow> pystr" where
  "str_int i = (if i < 0 then 45 # str_nat (nat (- i)) else str_nat (nat i))"

fun py_str :: "pyval \<Rightarrow> pystr" where
  "py_str PNone = py ''None''"
| "py_str (PBool b) = (if b then py ''True'' else py ''False'')"
| "py_str (PInt i) = str_int i"
| "py_str (PStr s) = s"

text \<open>
  \<open>compact_rank\<close>. \<open>str.title\<close> needs Unicode's case tables and is a parameter. The
  label of a tier with divisions holds an em dash, U+2014, between two spaces.
\<close>

definition compact_rank :: "(pystr \<Rightarrow> pystr) \<Rightarrow> pydict option \<Rightarrow> py_error + pystr" where
  "compact_rank title entry =
     (case entry of
        None \<Rightarrow> Inr (py ''*Unranked*'')
      | Some e \<Rightarrow>
          if e = [] then Inr (py ''*Unranked*'')
          else
            (case map_of e (py ''tier'') of
               None \<Rightarrow> Inl KeyError
             | Some tier \<Rightarrow>
                 let lp = dict_get e (py ''leaguePoints'') (PInt 0);
                     w = dict_get e (py ''wins'') (PInt 0);
                     l = dict_get e (py ''losses'') (PInt 0)
                 in (case tier of
                       PStr t \<Rightarrow>
                         if is_apex tier then
                           Inr (title t @ py '' '' @ py_str lp @ py '' LP (W '' @ py_str w
                                @ py ''/L '' @ py_str l @ py '')'')
                         else
                           Inr (title t @ py '' ''
                                @ py_str (dict_get e (py ''rank'') (PStr (py ''IV'')))
                                @ [32, 8212, 32] @ py_str lp @ py '' LP (W '' @ py_str w
                                @ py ''/L '' @ py_str l @ py '')'')
                     | _ \<Rightarrow> Inl AttributeError)))"

text \<open>
  \<open>pick_queue_entry\<close>: the first element \<open>e\<close> of \<open>entries\<close> with
  \<open>e.get("queueType") == queue\<close>. An element that is no dict has no \<open>get\<close>; a dict
  or a str that is iterated yields str elements; a number, a bool or \<open>None\<close> cannot
  be iterated.
\<close>

fun pick_in_list :: "json list \<Rightarrow> pystr \<Rightarrow> py_error + pydict option" where
  "pick_in_list [] queue = Inr None"
| "pick_in_list (JObject e # rest) queue =
     (if map_of e (py ''queueType'') = Some (PStr queue) then Inr (Some e)
      else pick_in_list rest queue)"
| "pick_in_list (JScalar v # rest) queue = Inl AttributeError"
| "pick_in_list (JArray xs # rest) queue = Inl AttributeError"

definition pick_queue_entry :: "json \<Rightarrow> pystr \<Rightarrow> py_error + pydict option" where
  "pick_queue_entry entries queue =
     (case entries of
        JArray xs \<Rightarrow> pick_in_list xs queue
      | JObject d \<Rightarrow> if d = [] then Inr None else Inl AttributeError
      | JScalar v \<Rightarrow>
          (case v of
             PStr s \<Rightarrow> if s = [] then Inr None else Inl AttributeError
           | _ \<Rightarrow> Inl TypeError))"

section \<open>Identity strings\<close>

text \<open>
  \<open>str.strip()\<close> removes the code points for which \<open>str.isspace\<close> holds from both
  ends. \<open>unicodedata.normalize("NFC", s)\<close> needs Unicode's composition tables and is a
  parameter, \<open>nfc\<close>.
\<close>

definition isspace :: "nat \<Rightarrow> bool" where
  "isspace c =
     ((9 \<le> c \<and> c \<le> 13) \<or> (28 \<le> c \<and> c \<le> 32) \<or> c = 133 \<or> c = 160 \<or> c = 5760
      \<or> (8192 \<le> c \<and> c \<le> 8202) \<or> c = 8232 \<or> c = 8233 \<or> c = 8239 \<or> c = 8287
      \<or> c = 12288)"

definition strip :: "pystr \<Rightarrow> pystr" where
  "strip s = rev (dropWhile isspace (rev (dropWhile isspace s)))"

definition HASH :: nat where
  "HASH = 35"

definition sanitize_user_key :: "(pystr \<Rightarrow> pystr) \<Rightarrow> pystr \<Rightarrow> pystr" where
  "sanitize_user_key nfc s = strip (nfc s)"

text \<open>\<open>s.split("#", 1)\<close> of a string with a \<open>#\<close>: the text before the first one, and the rest.\<close>

definition split_riot_id :: "(pystr \<Rightarrow> pystr) \<Rightarrow> pystr \<Rightarrow> pystr \<times> pystr option" where
  "split_riot_id nfc s0 =
     (let s = sanitize_user_key nfc s0
      in if HASH \<in> set s then
           (let game = takeWhile (\<lambda>c. c \<noteq> HASH) s;
                tag = tl (dropWhile (\<lambda>c. c \<noteq> HASH) s)
            in (strip game, Some (strip tag)))
         else (s, None))"

text \<open>
  \<open>urllib.parse.quote(s, safe="")\<close>: the UTF-8 bytes of \<open>s\<close>, each one kept when it is
  a letter, a digit or one of \<open>_.-~\<close> and written \<open>%XX\<close> otherwise. A surrogate has no
  UTF-8 encoding; a number from 0x110000 on is no code point and is refused the same way.
\<close>

definition utf8 :: "nat \<Rightarrow> py_error + nat list" where
  "utf8 c =
     (if c < 128 then Inr [c]
      else if c < 2048 then Inr [192 + c div 64, 128 + c mod 64]
      else if 55296 \<le> c \<and> c < 57344 then Inl UnicodeEncodeError
      else if c < 65536 then
        Inr [224 + c div 4096, 128 + (c div 64) mod 64, 128 + c mod 64]
      else if c < 1114112 then
        Inr [240 + c div 262144, 128 + (c div 4096) mod 64, 128 + (c div 64) mod 64,
             128 + c mod 64]
      else Inl UnicodeEncodeError)"

definition always_safe :: "nat \<Rightarrow> bool" where
  "always_safe b =
     ((65 \<le> b \<and> b \<le> 90) \<or> (97 \<le> b \<and> b \<le> 122) \<or> (48 \<le> b \<and> b \<le> 57)
      \<or> b = 95 \<or> b = 46 \<or> b = 45 \<or> b = 126)"

definition hex_digit :: "nat \<Rightarrow> nat" where
  "hex_digit d = (if d < 10 then 48 + d else 55 + d)"

definition quote_byte :: "nat \<Rightarrow> pystr" where
  "quote_byte b = (if always_safe b then [b] else [37, hex_digit (b div 16), hex_digit (b mod 16)])"

fun quote :: "pystr \<Rightarrow> py_error + pystr" where
  "quote [] = Inr []"
| "quote (c # cs) =
     (case utf8 c of
        Inl err \<Rightarrow> Inl err
      | Inr bs \<Rightarrow>
          (case quote cs of
             Inl err \<Rightarrow> Inl err
           | Inr q \<Rightarrow> Inr (concat (map quote_byte bs) @ q)))"

section \<open>Riot API client\<close>

text \<open>
  The network is the environment: \<open>net url k\<close> is what the request for \<open>url\<close> meets when
  \<open>k\<close> requests were made before it. A response has its status, its \<open>Retry-After\<close>
  header and the value \<open>resp.json()\<close> decodes (\<open>None\<close> when decoding raises). What the
  client does to the outside is its trace: the requests it sends and the sleeps it takes.
\<close>

datatype http_outcome =
  Response nat "pystr option" "json option" | ConnectorFails | RequestFails

datatype event = Request pystr | Sleep real

type_synonym world = "pystr \<Rightarrow> nat \<Rightarrow> http_outcome"

fun is_request :: "event \<Rightarrow> bool" where
  "is_request (Request u) = True"
| "is_request (Sleep w) = False"

definition request_count :: "event list \<Rightarrow> nat" where
  "request_count tr = length (filter is_request tr)"

definition platform_base_euw :: pystr where
  "platform_base_euw = py ''https://euw1.api.riotgames.com''"

definition account_base_europe :: pystr where
  "account_base_europe = py ''https://europe.api.riotgames.com''"

text \<open>
  \<open>wait = float(retry_after) if retry_after else max(1.5 * (i + 1), 2.0)\<close>. \<open>float\<close> is a
  parameter, \<open>pyfloat\<close>: \<open>None\<close> where it raises \<open>ValueError\<close>.
\<close>

definition retry_wait :: "(pystr \<Rightarrow> real option) \<Rightarrow> pystr option \<Rightarrow> nat \<Rightarrow> py_error + real" where
  "retry_wait pyfloat retry_after i =
     (case retry_after of
        None \<Rightarrow> Inr (max (1.5 * (real i + 1)) 2.0)
      | Some h \<Rightarrow>
          if h = [] then Inr (max (1.5 * (real i + 1)) 2.0)
          else (case pyfloat h of None \<Rightarrow> Inl ValueError | Some w \<Rightarrow> Inr w))"

text \<open>The body of the \<open>try\<close> of \<open>_get\<close>, for attempt \<open>i\<close>: it sleeps and continues, returns, or raises.\<close>

datatype attempt = Continue real | Return json

definition try_body :: "(pystr \<Rightarrow> real option) \<Rightarrow> http_outcome \<Rightarrow> nat \<Rightarrow> py_error + attempt" where
  "try_body pyfloat outcome i =
     (case outcome of
        ConnectorFails \<Rightarrow> Inl ClientConnectorError
      | RequestFails \<Rightarrow> Inl ClientError
      | Response status retry_after body \<Rightarrow>
          if status = 429 then
            (case retry_wait pyfloat retry_after i of
               Inl err \<Rightarrow> Inl err
             | Inr wait \<Rightarrow> Inr (Continue wait))
          else if status = 401 \<or> status = 403 \<or> status = 400 \<or> status = 404 then
            Inr (Return (JScalar PNone))
          else if 400 \<le> status then Inl ClientResponseError
          else (case body of None \<Rightarrow> Inl DecodeError | Some j \<Rightarrow> Inr (Return j)))"

text \<open>
  \<open>RiotClient._get\<close>: \<open>for i in range(tries)\<close>, with \<open>k\<close> the attempts left. Both
  \<open>except\<close> clauses return \<open>None\<close>, and so does the end of the loop.
\<close>

fun get_loop ::
  "(pystr \<Rightarrow> real option) \<Rightarrow> world \<Rightarrow> pystr \<Rightarrow> nat \<Rightarrow> nat \<Rightarrow> event list
   \<Rightarrow> (py_error + json) \<times> event list" where
  "get_loop pyfloat net url i 0 tr = (Inr (JScalar PNone), tr)"
| "get_loop pyfloat net url i (Suc k) tr =
     (case try_body pyfloat (net url (request_count tr)) i of
        Inl err \<Rightarrow> (Inr (JScalar PNone), tr @ [Request url])
      | Inr (Return v) \<Rightarrow> (Inr v, tr @ [Request url])
      | Inr (Continue wait) \<Rightarrow>
          get_loop pyfloat net url (Suc i) k (tr @ [Request url, Sleep wait]))"

definition client_get ::
  "(pystr \<Rightarrow> real option) \<Rightarrow> world \<Rightarrow> pystr \<Rightarrow> nat \<Rightarrow> event list
   \<Rightarrow> (py_error + json) \<times> event list" where
  "client_get pyfloat net url tries tr = get_loop pyfloat net url 0 tries tr"

definition league_url :: "pyval \<Rightarrow> pystr" where
  "league_url encrypted_puuid =
     platform_base_euw @ py ''/lol/league/v4/entries/by-puuid/'' @ py_str encrypted_puuid"

definition league_entries_by_puuid_euw ::
  "(pystr \<Rightarrow> real option) \<Rightarrow> world \<Rightarrow> pyval \<Rightarrow> event list \<Rightarrow> (py_error + json) \<times> event list" where
  "league_entries_by_puuid_euw pyfloat net encrypted_puuid tr =
     (case client_get pyfloat net (league_url encrypted_puuid) 2 tr of
        (Inl err, tr') \<Rightarrow> (Inl err, tr')
      | (Inr data, tr') \<Rightarrow> (Inr (if json_truthy data then data else JArray []), tr'))"

definition account_url :: "pystr \<Rightarrow> pystr \<Rightarrow> py_error + pystr" where
  "account_url game_name tag_line =
     (case quote game_name of
        Inl err \<Rightarrow> Inl err
      | Inr game_q \<Rightarrow>
          (case quote tag_line of
             Inl err \<Rightarrow> Inl err
           | Inr tag_q \<Rightarrow>
               Inr (account_base_europe @ py ''/riot/account/v1/accounts/by-riot-id/''
                    @ game_q @ py ''/'' @ tag_q)))"

definition account_by_riot_id_eu ::
  "(pystr \<Rightarrow> real option) \<Rightarrow> world \<Rightarrow> pystr \<Rightarrow> pystr \<Rightarrow> event list
   \<Rightarrow> (py_error + json) \<times> event list" where
  "account_by_riot_id_eu pyfloat net game_name tag_line tr =
     (case account_url game_name tag_line of
        Inl err \<Rightarrow> (Inl err, tr)
      | Inr url \<Rightarrow> client_get pyfloat net url 2 tr)"

section \<open>Snapshot\<close>

type_synonym roster = "(pystr \<times> pydict) list"

type_synonym snapshot = "(pystr \<times> pydict option) list"

text \<open>
  The \<open>try\<close> of \<open>fetch_snapshot\<close> for a record with a puuid, and its handler: whatever
  the fetch or the selection raises, the entry is \<open>None\<close>.
\<close>

definition fetch_entry ::
  "(pystr \<Rightarrow> real option) \<Rightarrow> world \<Rightarrow> pystr \<Rightarrow> pyval \<Rightarrow> event list
   \<Rightarrow> pydict option \<times> event list" where
  "fetch_entry pyfloat net queue puuid tr =
     (case league_entries_by_puuid_euw pyfloat net puuid tr of
        (Inl err, tr') \<Rightarrow> (None, tr')
      | (Inr entries, tr') \<Rightarrow>
          (case pick_queue_entry entries queue of
             Inl err \<Rightarrow> (None, tr')
           | Inr picked \<Rightarrow> (picked, tr')))"

text \<open>
  The loop over \<open>players.items()\<close>, \<open>out\<close> the dict built so far. The API key only goes
  into a request header and is left out.
\<close>

fun snapshot_loop ::
  "(pystr \<Rightarrow> real option) \<Rightarrow> world \<Rightarrow> pystr \<Rightarrow> roster \<Rightarrow> snapshot \<Rightarrow> event list
   \<Rightarrow> snapshot \<times> event list" where
  "snapshot_loop pyfloat net queue [] out tr = (out, tr)"
| "snapshot_loop pyfloat net queue ((name, cfg) # rest) out tr =
     (let puuid = dict_get cfg (py ''puuid'') PNone
      in if \<not> truthy puuid then
           snapshot_loop pyfloat net queue rest (AList.update name None out) tr
         else
           (case fetch_entry pyfloat net queue puuid tr of
              (v, tr') \<Rightarrow>
                snapshot_loop pyfloat net queue rest (AList.update name v out)
                  (tr' @ [Sleep 0.2])))"

definition fetch_snapshot ::
  "(pystr \<Rightarrow> real option) \<Rightarrow> world \<Rightarrow> pystr \<Rightarrow> roster \<Rightarrow> event list
   \<Rightarrow> snapshot \<times> event list" where
  "fetch_snapshot pyfloat net queue players tr = snapshot_loop pyfloat net queue players [] tr"

text \<open>
  \<open>sorted(snap.items(), key=..., reverse=True)\<close>: the key of every item is computed
  first, in order, and the first exception propagates; the list is reversed, sorted by
  a stable ascending sort on the keys, and reversed again.
\<close>

fun sort_keys :: "snapshot \<Rightarrow> py_error + int list" where
  "sort_keys [] = Inr []"
| "sort_keys (kv # rest) =
     (case score_for_sort (snd kv) of
        Inl err \<Rightarrow> Inl err
      | Inr k \<Rightarrow>
          (case sort_keys rest of
             Inl err \<Rightarrow> Inl err
           | Inr ks \<Rightarrow> Inr (k # ks)))"

definition sort_snapshot :: "snapshot \<Rightarrow> py_error + snapshot" where
  "sort_snapshot snap =
     (case sort_keys snap of
        Inl err \<Rightarrow> Inl err
      | Inr ks \<Rightarrow> Inr (map snd (rev (sort_key fst (rev (zip ks snap))))))"

section \<open>Resolving a Riot ID\<close>

text \<open>\<open>sub in s\<close> for two strings.\<close>

fun contains :: "pystr \<Rightarrow> pystr \<Rightarrow> bool" where
  "contains sub [] = (sub = [])"
| "contains sub (c # cs) = (take (length sub) (c # cs) = sub \<or> contains sub cs)"

text \<open>
  \<open>if acct and "puuid" in acct: return acct["puuid"]\<close>, else \<open>None\<close>. Only a dict
  can be subscripted with a str, and a number or a bool has no \<open>in\<close>.
\<close>

definition account_puuid :: "json \<Rightarrow> py_error + pyval" where
  "account_puuid acct =
     (if \<not> json_truthy acct then Inr PNone
      else
        (case acct of
           JObject d \<Rightarrow> (case map_of d (py ''puuid'') of None \<Rightarrow> Inr PNone | Some v \<Rightarrow> Inr v)
         | JArray xs \<Rightarrow>
             if JScalar (PStr (py ''puuid'')) \<in> set xs then Inl TypeError else Inr PNone
         | JScalar v \<Rightarrow>
             (case v of
                PStr s \<Rightarrow> if contains (py ''puuid'') s then Inl TypeError else Inr PNone
              | _ \<Rightarrow> Inl TypeError)))"

definition resolve_puuid_from_riot_id ::
  "(pystr \<Rightarrow> pystr) \<Rightarrow> (pystr \<Rightarrow> real option) \<Rightarrow> world \<Rightarrow> pystr \<Rightarrow> event list
   \<Rightarrow> (py_error + pyval) \<times> event list" where
  "resolve_puuid_from_riot_id nfc pyfloat net riot_id tr =
     (case split_riot_id nfc riot_id of
        (game, None) \<Rightarrow> (Inr PNone, tr)
      | (game, Some tag) \<Rightarrow>
          if tag = [] then (Inr PNone, tr)
          else
            (case account_by_riot_id_eu pyfloat net game tag tr of
               (Inl err, tr') \<Rightarrow> (Inl err, tr')
             | (Inr acct, tr') \<Rightarrow> (account_puuid acct, tr')))"

section \<open>Storage and the setplayer command\<close>

text \<open>
  \<open>data\<close> is the module's dict; only its key \<open>"players"\<close> is used, so it is modelled by
  the value under that key, \<open>None\<close> when the key is missing. The file holds what the
  last complete \<open>json.dump\<close> wrote. \<open>open(DATA_FILE, "w")\<close> truncates the file before
  anything is written, so a write can fail in two ways: \<open>open\<close> raises and the file is
  as it was, or \<open>json.dump\<close> raises and the file is left cut short.
\<close>

type_synonym data = "roster option"

datatype disk = NoFile | Holds data | CutShort

datatype write_outcome = WriteOk | OpenFails | DumpFails

definition save_data :: "write_outcome \<Rightarrow> data \<Rightarrow> disk \<Rightarrow> (py_error + unit) \<times> disk" where
  "save_data w d f =
     (case w of
        WriteOk \<Rightarrow> (Inr (), Holds d)
      | OpenFails \<Rightarrow> (Inl OSError, f)
      | DumpFails \<Rightarrow> (Inl OSError, CutShort))"

record bot =
  data :: data
  data_file :: disk
  trace :: "event list"

datatype reply = KeyMissing | CouldNotResolve | PlayerSet

text \<open>
  \<open>setplayer\<close>: \<open>api_key\<close> is \<open>RIOT_API_KEY\<close>, \<open>w\<close> what the write meets. The result is
  the message sent, or the exception that leaves the command.
\<close>

definition setplayer ::
  "(pystr \<Rightarrow> pystr) \<Rightarrow> (pystr \<Rightarrow> real option) \<Rightarrow> world \<Rightarrow> write_outcome \<Rightarrow> pystr
   \<Rightarrow> pystr \<Rightarrow> pystr \<Rightarrow> bot \<Rightarrow> (py_error + reply) \<times> bot" where
  "setplayer nfc pyfloat net w api_key display_name riot_id0 st =
     (if api_key = [] then (Inr KeyMissing, st)
      else
        let riot_id = sanitize_user_key nfc riot_id0
        in (case resolve_puuid_from_riot_id nfc pyfloat net riot_id (trace st) of
              (Inl err, tr') \<Rightarrow> (Inl err, st\<lparr>trace := tr'\<rparr>)
            | (Inr puuid, tr') \<Rightarrow>
                if \<not> truthy puuid then (Inr CouldNotResolve, st\<lparr>trace := tr'\<rparr>)
                else
                  let players = (case data st of None \<Rightarrow> [] | Some ps \<Rightarrow> ps);
                      d = Some (AList.update display_name
                                  [(py ''riot_id'', PStr riot_id), (py ''puuid'', puuid)]
                                  players)
                  in (case save_data w d (data_file st) of
                        (Inl err, f') \<Rightarrow> (Inl err, st\<lparr>data := d, data_file := f', trace := tr'\<rparr>)
                      | (Inr u, f') \<Rightarrow>
                          (Inr PlayerSet, st\<lparr>data := d, data_file := f', trace := tr'\<rparr>))))"

section \<open>Vocabulary of the properties\<close>

text \<open>
  What the properties below say about a rank entry: the rank of its tier in
  \<open>TIER_ORDER\<close> when the tier is one of the ten, its league points when they are an
  int, and the ranges in which an entry counts as valid.
\<close>

definition entry_tier_rank :: "pydict \<Rightarrow> int option" where
  "entry_tier_rank e =
     (case map_of e (py ''tier'') of Some (PStr t) \<Rightarrow> map_of TIER_ORDER t | _ \<Rightarrow> None)"

definition entry_points :: "pydict \<Rightarrow> int option" where
  "entry_points e =
     (case map_of e (py ''leaguePoints'') of Some (PInt n) \<Rightarrow> Some n | _ \<Rightarrow> None)"

definition entry_is_apex :: "pydict \<Rightarrow> bool" where
  "entry_is_apex e = is_apex (dict_get e (py ''tier'') PNone)"

text \<open>A known tier and league points that are not negative.\<close>

definition valid_entry :: "pydict \<Rightarrow> bool" where
  "valid_entry e =
     (case (entry_tier_rank e, entry_points e) of
        (Some r, Some n) \<Rightarrow> 0 \<le> n
      | _ \<Rightarrow> False)"

text \<open>Valid, and below 100 league points unless the tier is an apex tier.\<close>

definition valid_ranges :: "pydict \<Rightarrow> bool" where
  "valid_ranges e =
     (valid_entry e \<and>
      (entry_is_apex e \<or> (case entry_points e of Some n \<Rightarrow> n < 100 | None \<Rightarrow> False)))"

definition higher_tier :: "pydict \<Rightarrow> pydict \<Rightarrow> bool" where
  "higher_tier a b =
     (case (entry_tier_rank a, entry_tier_rank b) of
        (Some ra, Some rb) \<Rightarrow> rb < ra
      | _ \<Rightarrow> False)"

definition apex_below_4000 :: "pydict \<Rightarrow> bool" where
  "apex_below_4000 e =
     (entry_is_apex e \<longrightarrow> (case entry_points e of Some n \<Rightarrow> n < 4000 | None \<Rightarrow> False))"

text \<open>
  What a request can meet, as the properties below name it: a response below 400 whose
  body decodes; an outcome after which \<open>_get\<close> returns \<open>None\<close> at once; a response
  that holds an entry for the queue.
\<close>

fun succeeds :: "http_outcome \<Rightarrow> bool" where
  "succeeds (Response status retry_after body) = (status < 400 \<and> body \<noteq> None)"
| "succeeds ConnectorFails = False"
| "succeeds RequestFails = False"

fun definitive_failure :: "http_outcome \<Rightarrow> bool" where
  "definitive_failure (Response status retry_after body) =
     (status \<noteq> 429 \<and> (400 \<le> status \<or> body = None))"
| "definitive_failure ConnectorFails = True"
| "definitive_failure RequestFails = True"

fun offers :: "pystr \<Rightarrow> http_outcome \<Rightarrow> bool" where
  "offers queue (Response status retry_after body) =
     (status < 400 \<and>
      (case body of
         Some (JArray xs) \<Rightarrow>
           list_ex (\<lambda>x. case x of
                           JObject e \<Rightarrow> map_of e (py ''queueType'') = Some (PStr queue)
                         | _ \<Rightarrow> False) xs
       | _ \<Rightarrow> False))"
| "offers queue ConnectorFails = False"
| "offers queue RequestFails = False"

text \<open>What the snapshot holds for a roster record \<open>cfg\<close>.\<close>

definition entry_of_record :: "world \<Rightarrow> pystr \<Rightarrow> pydict \<Rightarrow> pydict option \<Rightarrow> bool" where
  "entry_of_record net queue cfg v =
     ((\<not> truthy (dict_get cfg (py ''puuid'') PNone) \<longrightarrow> v = None)
      \<and> ((\<forall>k. \<not> succeeds (net (league_url (dict_get cfg (py ''puuid'') PNone)) k)) \<longrightarrow> v = None)
      \<and> ((\<forall>k. \<not> offers queue (net (league_url (dict_get cfg (py ''puuid'') PNone)) k)) \<longrightarrow> v = None)
      \<and> (\<forall>e. v = Some e \<longrightarrow> map_of e (py ''queueType'') = Some (PStr queue)))"

text \<open>
  What is assumed of the parameter \<open>nfc\<close>: normalisation neither adds nor removes a
  \<open>#\<close>. U+0023 takes part in no canonical decomposition or composition.
\<close>

definition nfc_keeps_hash :: "(pystr \<Rightarrow> pystr) \<Rightarrow> bool" where
  "nfc_keeps_hash nfc = (\<forall>s. count_list (nfc s) HASH = count_list s HASH)"

section \<open>Example data\<close>

text \<open>
  A roster of four: \<open>A\<close> has no cached puuid, \<open>B\<close> is Gold II with 40 LP in the solo
  queue (and Silver in the flex queue), \<open>C\<close> is Platinum IV with 0 LP, and every request
  for \<open>D\<close> fails to connect.
\<close>

definition example_gold :: pydict where
  "example_gold =
     [(py ''queueType'', PStr (py ''RANKED_SOLO_5x5'')), (py ''tier'', PStr (py ''GOLD'')),
      (py ''rank'', PStr (py ''II'')), (py ''leaguePoints'', PInt 40),
      (py ''wins'', PInt 12), (py ''losses'', PInt 9)]"

definition example_gold_flex :: pydict where
  "example_gold_flex =
     [(py ''queueType'', PStr (py ''RANKED_FLEX_SR'')), (py ''tier'', PStr (py ''SILVER'')),
      (py ''rank'', PStr (py ''I'')), (py ''leaguePoints'', PInt 75),
      (py ''wins'', PInt 3), (py ''losses'', PInt 4)]"

definition example_platinum :: pydict where
  "example_platinum =
     [(py ''queueType'', PStr (py ''RANKED_SOLO_5x5'')), (py ''tier'', PStr (py ''PLATINUM'')),
      (py ''rank'', PStr (py ''IV'')), (py ''leaguePoints'', PInt 0),
      (py ''wins'', PInt 30), (py ''losses'', PInt 28)]"

definition example_roster :: roster where
  "example_roster =
     [(py ''A'', [(py ''riot_id'', PStr (py ''Ana#EUW''))]),
      (py ''B'', [(py ''riot_id'', PStr (py ''Bo#EUW'')), (py ''puuid'', PStr (py ''puuid-b''))]),
      (py ''C'', [(py ''riot_id'', PStr (py ''Cy#EUW'')), (py ''puuid'', PStr (py ''puuid-c''))]),
      (py ''D'', [(py ''riot_id'', PStr (py ''Di#EUW'')), (py ''puuid'', PStr (py ''puuid-d''))])]"

text \<open>The same four players with \<open>D\<close>, whose requests fail, in front.\<close>

definition failing_first_roster :: roster where
  "failing_first_roster =
     [(py ''D'', [(py ''riot_id'', PStr (py ''Di#EUW'')), (py ''puuid'', PStr (py ''puuid-d''))]),
      (py ''A'', [(py ''riot_id'', PStr (py ''Ana#EUW''))]),
      (py ''B'', [(py ''riot_id'', PStr (py ''Bo#EUW'')), (py ''puuid'', PStr (py ''puuid-b''))]),
      (py ''C'', [(py ''riot_id'', PStr (py ''Cy#EUW'')), (py ''puuid'', PStr (py ''puuid-c''))])]"

definition example_net :: world where
  "example_net url k =
     (if url = league_url (PStr (py ''puuid-b'')) then
        Response 200 None (Some (JArray [JObject example_gold_flex, JObject example_gold]))
      else if url = league_url (PStr (py ''puuid-c'')) then
        Response 200 None (Some (JArray [JObject example_platinum]))
      else ConnectorFails)"

definition no_float :: "pystr \<Rightarrow> real option" where
  "no_float s = None"

definition example_snapshot :: snapshot where
  "example_snapshot =
     [(py ''A'', None), (py ''B'', Some example_gold), (py ''C'', Some example_platinum),
      (py ''D'', None)]"



text \<open>A network whose account lookup answers with the account of \<open>Ana#EUW\<close>.\<close>

definition account_net :: world where
  "account_net url k =
     Response 200 None
       (Some (JObject [(py ''puuid'', PStr (py ''puuid-a'')), (py ''gameName'', PStr (py ''Ana'')),
                       (py ''tagLine'', PStr (py ''EUW''))]))"

text \<open>A bot with an empty roster that is on disk, and the record that \<open>setplayer\<close> makes for \<open>Ana#EUW\<close>.\<close>

definition example_bot :: bot where
  "example_bot = \<lparr>data = Some [], data_file = Holds (Some []), trace = []\<rparr>"

definition ana_record :: pydict where
  "ana_record = [(py ''riot_id'', PStr (py ''Ana#EUW'')), (py ''puuid'', PStr (py ''puuid-a''))]"

section \<open>Scores\<close>

lemma py_eq_iff: "py s = py t \<longleftrightarrow> s = t"
  by (simp add: py_def inj_map_eq_map inj_of_char)

lemma tier_rank_cases:
  assumes "map_of TIER_ORDER t = Some r"
  shows "(r = 7 \<and> t = py ''MASTER'') \<or> (r = 8 \<and> t = py ''GRANDMASTER'')
         \<or> (r = 9 \<and> t = py ''CHALLENGER'') \<or> (0 \<le> r \<and> r \<le> 6 \<and> \<not> is_apex (PStr t))"
  using assms unfolding TIER_ORDER_def is_apex_def
  by (auto simp: py_eq_iff split: if_splits)

lemma div_get_bounds: "0 \<le> div_get d \<and> div_get d \<le> 3"
  unfolding div_get_def DIV_ORDER_def dict_get_def
  by (cases d) (auto simp: py_eq_iff)

lemma apex_rank:
  "map_of TIER_ORDER t = Some r \<Longrightarrow> is_apex (PStr t) \<longleftrightarrow> 7 \<le> r"
  using tier_rank_cases[of t r] unfolding is_apex_def by (auto simp: py_eq_iff)

lemma entry_tier_rankD:
  assumes "entry_tier_rank e = Some r"
  obtains t where "map_of e (py ''tier'') = Some (PStr t)" "map_of TIER_ORDER t = Some r"
  using assms unfolding entry_tier_rank_def by (auto split: option.splits pyval.splits)

lemma entry_pointsD:
  "entry_points e = Some n \<Longrightarrow> map_of e (py ''leaguePoints'') = Some (PInt n)"
  unfolding entry_points_def by (auto split: option.splits pyval.splits)

text \<open>The score of an entry with a known tier and int league points, in closed form.\<close>

lemma score_valid:
  assumes "entry_tier_rank e = Some r" "entry_points e = Some n"
  shows "score_for_sort (Some e) =
           Inr (if entry_is_apex e then r * 4000 + n
                else r * 400 + div_get (dict_get e (py ''rank'') (PStr (py ''IV''))) * 100 + n)"
proof -
  from assms(1) obtain t
    where t: "map_of e (py ''tier'') = Some (PStr t)" "map_of TIER_ORDER t = Some r"
    by (rule entry_tier_rankD)
  from assms(2) have n: "map_of e (py ''leaguePoints'') = Some (PInt n)"
    by (rule entry_pointsD)
  from t have ne: "e \<noteq> []" by auto
  show ?thesis
    using t n ne
    by (simp add: score_for_sort_def dict_get_def tier_subscript_def entry_is_apex_def Let_def)
qed

lemma entry_apex_rank:
  assumes "entry_tier_rank e = Some r"
  shows "entry_is_apex e \<longleftrightarrow> 7 \<le> r" and "0 \<le> r" and "r \<le> 9"
proof -
  from assms obtain t
    where t: "map_of e (py ''tier'') = Some (PStr t)" "map_of TIER_ORDER t = Some r"
    by (rule entry_tier_rankD)
  show "entry_is_apex e \<longleftrightarrow> 7 \<le> r"
    using t apex_rank[OF t(2)] by (simp add: entry_is_apex_def dict_get_def)
  show "0 \<le> r" "r \<le> 9" using tier_rank_cases[OF t(2)] by auto
qed

lemmas eval_defs = score_for_sort_def dict_get_def py_eq_iff is_apex_def tier_subscript_def
  TIER_ORDER_def DIV_ORDER_def div_get_def entry_tier_rank_def entry_points_def
  entry_is_apex_def valid_entry_def valid_ranges_def higher_tier_def apex_below_4000_def

text \<open>
  C1, as the code has it. Between two entries with known tiers and league points that
  are not negative and stay below 100 outside the apex tiers, the entry of the higher
  tier has the strictly higher score, whatever the divisions and points, provided the
  entry of the lower tier, when its tier is an apex tier, has fewer than 4000 league
  points. An apex tier is worth 4000 points per rank and its league points have no
  bound of their own.
\<close>

theorem higher_tier_scores_higher:
  assumes a: "valid_ranges a" and b: "valid_ranges b"
    and hi: "higher_tier a b" and bound: "apex_below_4000 b"
  shows "\<exists>sa sb. score_for_sort (Some a) = Inr sa \<and> score_for_sort (Some b) = Inr sb \<and> sb < sa"
proof -
  from a obtain ra na where ra: "entry_tier_rank a = Some ra" and na: "entry_points a = Some na"
    and na0: "0 \<le> na"
    unfolding valid_ranges_def valid_entry_def by (auto split: option.splits)
  from b obtain rb nb where rb: "entry_tier_rank b = Some rb" and nb: "entry_points b = Some nb"
    and nb0: "0 \<le> nb"
    unfolding valid_ranges_def valid_entry_def by (auto split: option.splits)
  from hi ra rb have lt: "rb < ra" by (simp add: higher_tier_def)
  let ?da = "div_get (dict_get a (py ''rank'') (PStr (py ''IV'')))"
  let ?db = "div_get (dict_get b (py ''rank'') (PStr (py ''IV'')))"
  have da: "0 \<le> ?da" and db: "?db \<le> 3" using div_get_bounds by blast+
  have sa: "score_for_sort (Some a) =
      Inr (if entry_is_apex a then ra * 4000 + na else ra * 400 + ?da * 100 + na)"
    by (rule score_valid[OF ra na])
  have sb: "score_for_sort (Some b) =
      Inr (if entry_is_apex b then rb * 4000 + nb else rb * 400 + ?db * 100 + nb)"
    by (rule score_valid[OF rb nb])
  have nb_low: "\<not> entry_is_apex b \<Longrightarrow> nb < 100"
    using b nb by (simp add: valid_ranges_def)
  have nb_apex: "entry_is_apex b \<Longrightarrow> nb < 4000"
    using bound nb by (simp add: apex_below_4000_def)
  note ar = entry_apex_rank[OF ra] and br = entry_apex_rank[OF rb]
  have "(if entry_is_apex b then rb * 4000 + nb else rb * 400 + ?db * 100 + nb)
        < (if entry_is_apex a then ra * 4000 + na else ra * 400 + ?da * 100 + na)"
  proof (cases "entry_is_apex b")
    case True
    then have "entry_is_apex a" using ar(1) br(1) lt by auto
    moreover have "rb * 4000 + nb < ra * 4000 + na"
      using nb_apex[OF True] lt na0 by (simp add: algebra_simps)
    ultimately show ?thesis using True by simp
  next
    case False
    have low: "rb * 400 + ?db * 100 + nb < (rb + 1) * 400"
      using nb_low[OF False] db by (simp add: algebra_simps)
    show ?thesis
    proof (cases "entry_is_apex a")
      case True
      then have "7 \<le> ra" using ar(1) by simp
      moreover have "rb \<le> 6" using False br(1) by simp
      ultimately show ?thesis using True False low na0 by simp
    next
      case na': False
      have "(rb + 1) * 400 \<le> ra * 400" using lt by simp
      then show ?thesis using na' False low na0 da by simp
    qed
  qed
  with sa sb show ?thesis by simp
qed

text \<open>Platinum IV with 0 LP against Gold I with 99 LP.\<close>

theorem higher_tier_scores_higher_witness:
  "valid_ranges [(py ''queueType'', PStr (py ''RANKED_SOLO_5x5'')),
                 (py ''tier'', PStr (py ''PLATINUM'')), (py ''rank'', PStr (py ''IV'')),
                 (py ''leaguePoints'', PInt 0)]
   \<and> valid_ranges [(py ''queueType'', PStr (py ''RANKED_SOLO_5x5'')),
                   (py ''tier'', PStr (py ''GOLD'')), (py ''rank'', PStr (py ''I'')),
                   (py ''leaguePoints'', PInt 99)]
   \<and> higher_tier [(py ''queueType'', PStr (py ''RANKED_SOLO_5x5'')),
                  (py ''tier'', PStr (py ''PLATINUM'')), (py ''rank'', PStr (py ''IV'')),
                  (py ''leaguePoints'', PInt 0)]
                 [(py ''queueType'', PStr (py ''RANKED_SOLO_5x5'')),
                  (py ''tier'', PStr (py ''GOLD'')), (py ''rank'', PStr (py ''I'')),
                  (py ''leaguePoints'', PInt 99)]
   \<and> apex_below_4000 [(py ''queueType'', PStr (py ''RANKED_SOLO_5x5'')),
                       (py ''tier'', PStr (py ''GOLD'')), (py ''rank'', PStr (py ''I'')),
                       (py ''leaguePoints'', PInt 99)]
   \<and> (\<exists>sa sb.
         score_for_sort (Some [(py ''queueType'', PStr (py ''RANKED_SOLO_5x5'')),
                               (py ''tier'', PStr (py ''PLATINUM'')),
                               (py ''rank'', PStr (py ''IV'')),
                               (py ''leaguePoints'', PInt 0)]) = Inr sa
         \<and> score_for_sort (Some [(py ''queueType'', PStr (py ''RANKED_SOLO_5x5'')),
                                 (py ''tier'', PStr (py ''GOLD'')),
                                 (py ''rank'', PStr (py ''I'')),
                                 (py ''leaguePoints'', PInt 99)]) = Inr sb
         \<and> sb < sa)"
proof -
  let ?a = "[(py ''queueType'', PStr (py ''RANKED_SOLO_5x5'')),
             (py ''tier'', PStr (py ''PLATINUM'')), (py ''rank'', PStr (py ''IV'')),
             (py ''leaguePoints'', PInt 0)]"
  let ?b = "[(py ''queueType'', PStr (py ''RANKED_SOLO_5x5'')),
             (py ''tier'', PStr (py ''GOLD'')), (py ''rank'', PStr (py ''I'')),
             (py ''leaguePoints'', PInt 99)]"
  have 1: "valid_ranges ?a" by (simp add: eval_defs)
  have 2: "valid_ranges ?b" by (simp add: eval_defs)
  have 3: "higher_tier ?a ?b" by (simp add: eval_defs)
  have 4: "apex_below_4000 ?b" by (simp add: eval_defs)
  from higher_tier_scores_higher[OF 1 2 3 4] 1 2 3 4 show ?thesis by blast
qed

text \<open>
  C1 as stated fails between two apex tiers: a Grandmaster entry with 0 LP and a Master
  entry with 4000 LP are both valid, Grandmaster is the higher tier, and both score 32000.
\<close>

theorem apex_points_counterexample:
  "valid_ranges [(py ''queueType'', PStr (py ''RANKED_SOLO_5x5'')),
                 (py ''tier'', PStr (py ''GRANDMASTER'')), (py ''rank'', PStr (py ''I'')),
                 (py ''leaguePoints'', PInt 0)]
   \<and> valid_ranges [(py ''queueType'', PStr (py ''RANKED_SOLO_5x5'')),
                   (py ''tier'', PStr (py ''MASTER'')), (py ''rank'', PStr (py ''I'')),
                   (py ''leaguePoints'', PInt 4000)]
   \<and> higher_tier [(py ''queueType'', PStr (py ''RANKED_SOLO_5x5'')),
                  (py ''tier'', PStr (py ''GRANDMASTER'')), (py ''rank'', PStr (py ''I'')),
                  (py ''leaguePoints'', PInt 0)]
                 [(py ''queueType'', PStr (py ''RANKED_SOLO_5x5'')),
                  (py ''tier'', PStr (py ''MASTER'')), (py ''rank'', PStr (py ''I'')),
                  (py ''leaguePoints'', PInt 4000)]
   \<and> score_for_sort (Some [(py ''queueType'', PStr (py ''RANKED_SOLO_5x5'')),
                           (py ''tier'', PStr (py ''GRANDMASTER'')),
                           (py ''rank'', PStr (py ''I'')),
                           (py ''leaguePoints'', PInt 0)]) = Inr 32000
   \<and> score_for_sort (Some [(py ''queueType'', PStr (py ''RANKED_SOLO_5x5'')),
                           (py ''tier'', PStr (py ''MASTER'')),
                           (py ''rank'', PStr (py ''I'')),
                           (py ''leaguePoints'', PInt 4000)]) = Inr 32000"
  by (simp add: eval_defs)

text \<open>
  C2. The score of an absent entry is strictly below the score of every entry with a
  known tier and league points that are not negative: the first is \<open>-1\<close>, the second
  is computed without an exception and is at least 0.
\<close>

theorem absent_scores_lowest:
  assumes "valid_entry e"
  shows "\<exists>a s. score_for_sort None = Inr a \<and> score_for_sort (Some e) = Inr s \<and> a < s"
proof -
  from assms obtain r n
    where rn: "entry_tier_rank e = Some r" "entry_points e = Some n" "0 \<le> n"
    unfolding valid_entry_def by (auto split: option.splits)
  have r0: "0 \<le> r" by (rule entry_apex_rank(2)[OF rn(1)])
  have d0: "0 \<le> div_get (dict_get e (py ''rank'') (PStr (py ''IV'')))"
    using div_get_bounds by blast
  have "score_for_sort None = Inr (- 1)" by (simp add: score_for_sort_def)
  moreover have "\<exists>s. score_for_sort (Some e) = Inr s \<and> - 1 < s"
    using score_valid[OF rn(1,2)] r0 d0 rn(3) by (auto intro: add_nonneg_nonneg)
  ultimately show ?thesis by auto
qed

text \<open>Iron IV with 0 LP, the lowest entry there is.\<close>

theorem absent_scores_lowest_witness:
  "valid_entry [(py ''queueType'', PStr (py ''RANKED_SOLO_5x5'')),
                (py ''tier'', PStr (py ''IRON'')), (py ''rank'', PStr (py ''IV'')),
                (py ''leaguePoints'', PInt 0)]
   \<and> (\<exists>a s. score_for_sort None = Inr a
         \<and> score_for_sort (Some [(py ''queueType'', PStr (py ''RANKED_SOLO_5x5'')),
                                 (py ''tier'', PStr (py ''IRON'')),
                                 (py ''rank'', PStr (py ''IV'')),
                                 (py ''leaguePoints'', PInt 0)]) = Inr s
         \<and> a < s)"
proof -
  let ?e = "[(py ''queueType'', PStr (py ''RANKED_SOLO_5x5'')),
             (py ''tier'', PStr (py ''IRON'')), (py ''rank'', PStr (py ''IV'')),
             (py ''leaguePoints'', PInt 0)]"
  have 1: "valid_entry ?e" by (simp add: eval_defs)
  from absent_scores_lowest[OF 1] 1 show ?thesis by blast
qed

text \<open>
  C4 at an input the code does not survive. A division that is not in \<open>DIV_ORDER\<close>
  counts as the lowest one, by \<open>DIV_ORDER.get(div, 0)\<close>: Gold with the division
  \<open>V\<close> and 40 LP scores 1240. A tier that is not in \<open>TIER_ORDER\<close> is subscripted all
  the same, and the score of such an entry is a \<open>KeyError\<close>.
\<close>

theorem unknown_tier_raises:
  "score_for_sort (Some [(py ''queueType'', PStr (py ''RANKED_SOLO_5x5'')),
                         (py ''tier'', PStr (py ''OBSIDIAN'')),
                         (py ''rank'', PStr (py ''II'')),
                         (py ''leaguePoints'', PInt 40)]) = Inl KeyError
   \<and> score_for_sort (Some [(py ''queueType'', PStr (py ''RANKED_SOLO_5x5'')),
                           (py ''tier'', PStr (py ''GOLD'')),
                           (py ''rank'', PStr (py ''V'')),
                           (py ''leaguePoints'', PInt 40)]) = Inr 1240"
  by (simp add: eval_defs)

section \<open>Sorting a snapshot\<close>

lemma sort_keys_map:
  "sort_keys snap = Inr ks \<Longrightarrow> map (\<lambda>kv. score_for_sort (snd kv)) snap = map Inr ks"
  by (induction snap arbitrary: ks) (auto split: sum.splits)

lemma map_sort_keys:
  "map (\<lambda>kv. score_for_sort (snd kv)) snap = map Inr ks \<Longrightarrow> sort_keys snap = Inr ks"
proof (induction snap arbitrary: ks)
  case Nil
  then show ?case by simp
next
  case (Cons kv rest)
  from Cons.prems obtain k ks' where ks: "ks = k # ks'"
    and k: "score_for_sort (snd kv) = Inr k"
    and rest: "map (\<lambda>kv. score_for_sort (snd kv)) rest = map Inr ks'"
    by (cases ks) auto
  from Cons.IH[OF rest] k ks show ?case by simp
qed

lemma sort_keys_total:
  assumes "\<forall>kv\<in>set snap. \<exists>s. score_for_sort (snd kv) = Inr s"
  shows "\<exists>ks. sort_keys snap = Inr ks"
  using assms 
proof (induction snap)
  case Nil
  then show ?case by simp
next
  case (Cons kv rest)
  then obtain s ks where "score_for_sort (snd kv) = Inr s" "sort_keys rest = Inr ks" by auto
  then show ?case by simp
qed

lemma sort_keys_zip:
  assumes "sort_keys snap = Inr ks"
  shows "length ks = length snap"
    and "\<forall>z\<in>set (zip ks snap). score_for_sort (snd (snd z)) = Inr (fst z)"
proof -
  from assms have m: "map (\<lambda>kv. score_for_sort (snd kv)) snap = map Inr ks"
    by (rule sort_keys_map)
  from m show len: "length ks = length snap" by (rule map_eq_imp_length_eq[symmetric])
  show "\<forall>z\<in>set (zip ks snap). score_for_sort (snd (snd z)) = Inr (fst z)"
  proof
    fix z assume "z \<in> set (zip ks snap)"
    then obtain i where i: "i < length ks" "i < length snap" "z = (ks ! i, snap ! i)"
      by (auto simp: set_zip)
    have "map (\<lambda>kv. score_for_sort (snd kv)) snap ! i = map Inr ks ! i"
      by (simp only: m)
    with i show "score_for_sort (snd (snd z)) = Inr (fst z)" by simp
  qed
qed

text \<open>Python's reverse sort, on any list and key.\<close>

lemma reverse_sort_stable:
  "filter (\<lambda>z. f z = k) (rev (sort_key f (rev zs))) = filter (\<lambda>z. f z = k) zs"
  by (simp add: rev_filter[symmetric] sort_key_stable)

lemma reverse_sort_descending:
  "sorted (rev (map f (rev (sort_key f (rev zs)))))"
  by (simp add: rev_map[symmetric])

lemma sort_snapshot_rows:
  assumes "sort_snapshot snap = Inr rows"
  obtains ks where "sort_keys snap = Inr ks"
    and "rows = map snd (rev (sort_key fst (rev (zip ks snap))))"
  using assms unfolding sort_snapshot_def by (auto split: sum.splits)

lemma sort_snapshot_filter:
  assumes "sort_snapshot snap = Inr rows"
  shows "filter (\<lambda>kv. score_for_sort (snd kv) = Inr k) rows
         = filter (\<lambda>kv. score_for_sort (snd kv) = Inr k) snap"
proof -
  from assms obtain ks where ks: "sort_keys snap = Inr ks"
    and rows: "rows = map snd (rev (sort_key fst (rev (zip ks snap))))"
    by (rule sort_snapshot_rows)
  let ?zs = "zip ks snap"
  let ?ys = "rev (sort_key fst (rev ?zs))"
  let ?P = "\<lambda>kv. score_for_sort (snd kv) = Inr k"
  note z = sort_keys_zip[OF ks]
  have same: "\<And>z. z \<in> set ?zs \<Longrightarrow> (?P (snd z)) = (fst z = k)"
    using z(2) by auto
  have "filter ?P rows = map snd (filter (\<lambda>z. ?P (snd z)) ?ys)"
    by (simp add: rows filter_map o_def)
  also have "filter (\<lambda>z. ?P (snd z)) ?ys = filter (\<lambda>z. fst z = k) ?ys"
    by (rule filter_cong[OF refl]) (use same in simp)
  also have "\<dots> = filter (\<lambda>z. fst z = k) ?zs"
    by (rule reverse_sort_stable)
  also have "\<dots> = filter (\<lambda>z. ?P (snd z)) ?zs"
    by (rule filter_cong[OF refl]) (use same in simp)
  also have "map snd \<dots> = filter ?P (map snd ?zs)"
    by (simp add: filter_map o_def)
  also have "map snd ?zs = snap" using z(1) by simp
  finally show ?thesis .
qed

lemma sort_snapshot_mset:
  assumes "sort_snapshot snap = Inr rows"
  shows "mset rows = mset snap"
proof -
  from assms obtain ks where ks: "sort_keys snap = Inr ks"
    and rows: "rows = map snd (rev (sort_key fst (rev (zip ks snap))))"
    by (rule sort_snapshot_rows)
  have "mset rows = image_mset snd (mset (zip ks snap))"
    by (simp add: rows)
  also have "\<dots> = mset (map snd (zip ks snap))" by simp
  also have "map snd (zip ks snap) = snap" using sort_keys_zip(1)[OF ks] by simp
  finally show ?thesis .
qed

lemma sort_snapshot_descending:
  assumes "sort_snapshot snap = Inr rows"
  shows "\<exists>ks'. sort_keys rows = Inr ks' \<and> sorted (rev ks')"
proof -
  from assms obtain ks where ks: "sort_keys snap = Inr ks"
    and rows: "rows = map snd (rev (sort_key fst (rev (zip ks snap))))"
    by (rule sort_snapshot_rows)
  let ?ys = "rev (sort_key fst (rev (zip ks snap)))"
  note z = sort_keys_zip[OF ks]
  have "map (\<lambda>kv. score_for_sort (snd kv)) rows = map Inr (map fst ?ys)"
  proof -
    have "set ?ys = set (zip ks snap)" by simp
    with z(2) have "\<forall>y\<in>set ?ys. score_for_sort (snd (snd y)) = Inr (fst y)" by blast
    then have "map (\<lambda>y. score_for_sort (snd (snd y))) ?ys = map (\<lambda>y. Inr (fst y)) ?ys"
      by (intro map_cong[OF refl]) blast
    then show ?thesis unfolding rows by (simp add: o_def)
  qed
  then have "sort_keys rows = Inr (map fst ?ys)" by (rule map_sort_keys)
  moreover have "sorted (rev (map fst ?ys))" by (rule reverse_sort_descending)
  ultimately show ?thesis by blast
qed

lemma sort_snapshot_total:
  assumes "\<forall>kv\<in>set snap. \<exists>s. score_for_sort (snd kv) = Inr s"
  shows "\<exists>rows. sort_snapshot snap = Inr rows"
  using sort_keys_total[OF assms] by (auto simp: sort_snapshot_def)

section \<open>The retry loop\<close>

lemma try_body_cases:
  "(\<exists>err. try_body pyfloat outcome i = Inl err \<and> \<not> succeeds outcome)
   \<or> (try_body pyfloat outcome i = Inr (Return (JScalar PNone)) \<and> \<not> succeeds outcome)
   \<or> (\<exists>w ra body. try_body pyfloat outcome i = Inr (Continue w)
         \<and> outcome = Response 429 ra body \<and> retry_wait pyfloat ra i = Inr w)
   \<or> (\<exists>st ra v. try_body pyfloat outcome i = Inr (Return v)
         \<and> outcome = Response st ra (Some v) \<and> st < 400)"
  by (cases outcome) (auto simp: try_body_def split: sum.splits option.splits)

lemma try_body_definitive:
  "definitive_failure outcome \<Longrightarrow>
     (\<exists>err. try_body pyfloat outcome i = Inl err)
     \<or> try_body pyfloat outcome i = Inr (Return (JScalar PNone))"
  by (cases outcome) (auto simp: try_body_def split: sum.splits option.splits)

lemma try_body_success:
  "st < 400 \<Longrightarrow> try_body pyfloat (Response st ra (Some v)) i = Inr (Return v)"
  by (auto simp: try_body_def)

lemma get_loop_never_raises: "\<exists>v. fst (get_loop pyfloat net url i n tr) = Inr v"
proof (induction n arbitrary: i tr)
  case 0
  show ?case by simp
next
  case (Suc n)
  show ?case
    using try_body_cases[of pyfloat "net url (request_count tr)" i] Suc.IH
    by (auto split: sum.splits attempt.splits)
qed

lemma get_loop_result:
  "fst (get_loop pyfloat net url i n tr) = Inr v \<Longrightarrow>
     v = JScalar PNone \<or> (\<exists>k st ra. net url k = Response st ra (Some v) \<and> st < 400)"
proof (induction n arbitrary: i tr)
  case 0
  then show ?case by simp
next
  case (Suc n)
  from try_body_cases[of pyfloat "net url (request_count tr)" i]
  show ?case
  proof (elim disjE exE conjE)
    fix err assume "try_body pyfloat (net url (request_count tr)) i = Inl err"
    with Suc.prems show ?thesis by simp
  next
    assume "try_body pyfloat (net url (request_count tr)) i = Inr (Return (JScalar PNone))"
    with Suc.prems show ?thesis by simp
  next
    fix w ra body
    assume "try_body pyfloat (net url (request_count tr)) i = Inr (Continue w)"
    with Suc.prems have "fst (get_loop pyfloat net url (Suc i) n (tr @ [Request url, Sleep w])) = Inr v"
      by simp
    then show ?thesis by (rule Suc.IH)
  next
    fix st ra v'
    assume t: "try_body pyfloat (net url (request_count tr)) i = Inr (Return v')"
      and o: "net url (request_count tr) = Response st ra (Some v')" and st: "st < 400"
    from t Suc.prems have "v' = v" by simp
    with o st show ?thesis by blast
  qed
qed

lemma get_loop_all_fail:
  assumes "\<forall>k. \<not> succeeds (net url k)"
  shows "fst (get_loop pyfloat net url i n tr) = Inr (JScalar PNone)"
proof -
  obtain v where v: "fst (get_loop pyfloat net url i n tr) = Inr v"
    using get_loop_never_raises by blast
  from get_loop_result[OF v] assms have "v = JScalar PNone"
    by (metis option.distinct(1) succeeds.simps(1))
  with v show ?thesis by simp
qed

lemma request_count_append [simp]:
  "request_count (xs @ ys) = request_count xs + request_count ys"
  by (simp add: request_count_def)

lemma request_count_simps [simp]:
  "request_count [] = 0"
  "request_count (Request u # tr) = Suc (request_count tr)"
  "request_count (Sleep w # tr) = request_count tr"
  by (simp_all add: request_count_def)

text \<open>What a call adds to the trace: requests for its own URL and sleeps, at most one
  request per attempt.\<close>

lemma get_loop_trace:
  "\<exists>added. snd (get_loop pyfloat net url i n tr) = tr @ added
      \<and> (\<forall>e\<in>set added. is_request e \<longrightarrow> e = Request url)
      \<and> request_count added \<le> n"
proof (induction n arbitrary: i tr)
  case 0
  show ?case by simp
next
  case (Suc n)
  show ?case
  proof (cases "try_body pyfloat (net url (request_count tr)) i")
    case (Inl err)
    then show ?thesis by simp
  next
    case (Inr a)
    show ?thesis
    proof (cases a)
      case (Return v)
      with Inr show ?thesis by simp
    next
      case (Continue w)
      from Suc.IH[of "Suc i" "tr @ [Request url, Sleep w]"] obtain added
        where a: "snd (get_loop pyfloat net url (Suc i) n (tr @ [Request url, Sleep w]))
                    = (tr @ [Request url, Sleep w]) @ added"
          "\<forall>e\<in>set added. is_request e \<longrightarrow> e = Request url" "request_count added \<le> n"
        by blast
      have "snd (get_loop pyfloat net url i (Suc n) tr) = tr @ ([Request url, Sleep w] @ added)"
        using Inr Continue a(1) by simp
      moreover have "\<forall>e\<in>set ([Request url, Sleep w] @ added). is_request e \<longrightarrow> e = Request url"
        using a(2) by auto
      moreover have "request_count ([Request url, Sleep w] @ added) \<le> Suc n"
        using a(3) by simp
      ultimately show ?thesis by blast
    qed
  qed
qed

section \<open>Building a snapshot\<close>

lemma pick_in_list_Some:
  "pick_in_list xs queue = Inr (Some e) \<Longrightarrow>
     JObject e \<in> set xs \<and> map_of e (py ''queueType'') = Some (PStr queue)"
  by (induction xs queue rule: pick_in_list.induct) (auto split: if_splits)

lemma pick_queue_entry_Some:
  assumes "pick_queue_entry entries queue = Inr (Some e)"
  obtains xs where "entries = JArray xs" "JObject e \<in> set xs"
    "map_of e (py ''queueType'') = Some (PStr queue)"
  using assms pick_in_list_Some
  by (auto simp: pick_queue_entry_def split: json.splits pyval.splits if_splits)

lemma offers_succeeds: "offers queue outcome \<Longrightarrow> succeeds outcome"
  by (cases outcome) (auto split: option.splits)

lemma league_entries_result:
  assumes "league_entries_by_puuid_euw pyfloat net puuid tr = (r, tr')"
  shows "\<exists>v. r = Inr v \<and>
           (v = JArray [] \<or>
            (json_truthy v \<and> (\<exists>k st ra. net (league_url puuid) k = Response st ra (Some v) \<and> st < 400)))"
proof -
  obtain d t where g: "client_get pyfloat net (league_url puuid) 2 tr = (d, t)"
    by (cases "client_get pyfloat net (league_url puuid) 2 tr")
  obtain v where v: "d = Inr v"
    using get_loop_never_raises[of pyfloat net "league_url puuid" 0 2 tr] g
    by (auto simp: client_get_def)
  from g v have "fst (get_loop pyfloat net (league_url puuid) 0 2 tr) = Inr v"
    by (simp add: client_get_def)
  from get_loop_result[OF this]
  have prov: "v = JScalar PNone \<or> (\<exists>k st ra. net (league_url puuid) k = Response st ra (Some v) \<and> st < 400)" .
  from assms g v have r: "r = Inr (if json_truthy v then v else JArray [])"
    by (simp add: league_entries_by_puuid_euw_def)
  show ?thesis
  proof (cases "json_truthy v")
    case True
    then have "v \<noteq> JScalar PNone" by auto
    with prov r True show ?thesis by auto
  next
    case False
    with r show ?thesis by simp
  qed
qed

lemma fetch_entry_Some:
  assumes "fetch_entry pyfloat net queue puuid tr = (Some e, tr')"
  shows "map_of e (py ''queueType'') = Some (PStr queue)"
    and "\<exists>k. offers queue (net (league_url puuid) k)"
proof -
  obtain r t where l: "league_entries_by_puuid_euw pyfloat net puuid tr = (r, t)"
    by (cases "league_entries_by_puuid_euw pyfloat net puuid tr")
  from league_entries_result[OF l] obtain v where v: "r = Inr v"
    and prov: "v = JArray [] \<or>
       (json_truthy v \<and> (\<exists>k st ra. net (league_url puuid) k = Response st ra (Some v) \<and> st < 400))"
    by blast
  from assms l v have p: "pick_queue_entry v queue = Inr (Some e)"
    by (auto simp: fetch_entry_def split: sum.splits)
  from p obtain xs where xs: "v = JArray xs" "JObject e \<in> set xs"
    and q: "map_of e (py ''queueType'') = Some (PStr queue)"
    by (rule pick_queue_entry_Some)
  show "map_of e (py ''queueType'') = Some (PStr queue)" by (rule q)
  from xs have "v \<noteq> JArray []" by auto
  with prov obtain k st ra where k: "net (league_url puuid) k = Response st ra (Some v)" "st < 400"
    by blast
  have "list_ex (\<lambda>x. case x of JObject e \<Rightarrow> map_of e (py ''queueType'') = Some (PStr queue)
                         | _ \<Rightarrow> False) xs"
    unfolding list_ex_iff using xs(2) q by (intro bexI[of _ "JObject e"]) auto
  with k xs(1) have "offers queue (net (league_url puuid) k)" by simp
  then show "\<exists>k. offers queue (net (league_url puuid) k)" ..
qed

lemma fetch_entry_record:
  assumes "truthy (dict_get cfg (py ''puuid'') PNone)"
    and "fetch_entry pyfloat net queue (dict_get cfg (py ''puuid'') PNone) tr = (v, tr')"
  shows "entry_of_record net queue cfg v"
proof (cases v)
  case None
  then show ?thesis by (simp add: entry_of_record_def)
next
  case (Some e)
  note f = fetch_entry_Some[OF assms(2)[unfolded Some]]
  from f(2) obtain k where k: "offers queue (net (league_url (dict_get cfg (py ''puuid'') PNone)) k)" ..
  then have "succeeds (net (league_url (dict_get cfg (py ''puuid'') PNone)) k)"
    by (rule offers_succeeds)
  with k f(1) assms(1) Some show ?thesis
    unfolding entry_of_record_def by blast
qed

lemma update_fresh:
  "k \<notin> fst ` set al \<Longrightarrow> AList.update k v al = al @ [(k, v)]"
  by (induction al) auto

lemma snapshot_loop_spec:
  assumes "distinct (map fst players)" and "fst ` set players \<inter> fst ` set out = {}"
  shows "\<exists>new. fst (snapshot_loop pyfloat net queue players out tr) = out @ new
           \<and> list_all2 (\<lambda>rec row. fst row = fst rec \<and> entry_of_record net queue (snd rec) (snd row))
                players new"
  using assms
proof (induction players arbitrary: out tr)
  case Nil
  show ?case by simp
next
  case (Cons rec rest)
  obtain name cfg where rec: "rec = (name, cfg)" by (cases rec)
  let ?puuid = "dict_get cfg (py ''puuid'') PNone"
  from Cons.prems rec have fresh: "name \<notin> fst ` set out" by auto
  from Cons.prems rec have d: "distinct (map fst rest)" and nr: "name \<notin> fst ` set rest" by auto
  have disj: "\<And>v. fst ` set rest \<inter> fst ` set (out @ [(name, v)]) = {}"
    using Cons.prems(2) nr by auto
  show ?case
  proof (cases "truthy ?puuid")
    case False
    from Cons.IH[OF d disj[of None], of tr] obtain new
      where new: "fst (snapshot_loop pyfloat net queue rest (out @ [(name, None)]) tr)
                    = (out @ [(name, None)]) @ new"
        "list_all2 (\<lambda>rec row. fst row = fst rec \<and> entry_of_record net queue (snd rec) (snd row))
           rest new"
      by blast
    have "entry_of_record net queue cfg None" by (simp add: entry_of_record_def)
    with new False rec fresh show ?thesis
      by (intro exI[of _ "(name, None) # new"]) (simp add: update_fresh Let_def)
  next
    case True
    obtain v tr' where f: "fetch_entry pyfloat net queue ?puuid tr = (v, tr')"
      by (cases "fetch_entry pyfloat net queue ?puuid tr")
    from Cons.IH[OF d disj[of v], of "tr' @ [Sleep 0.2]"] obtain new
      where new: "fst (snapshot_loop pyfloat net queue rest (out @ [(name, v)]) (tr' @ [Sleep 0.2]))
                    = (out @ [(name, v)]) @ new"
        "list_all2 (\<lambda>rec row. fst row = fst rec \<and> entry_of_record net queue (snd rec) (snd row))
           rest new"
      by blast
    have "entry_of_record net queue cfg v" by (rule fetch_entry_record[OF True f])
    with new True rec fresh f show ?thesis
      by (intro exI[of _ "(name, v) # new"]) (simp add: update_fresh Let_def)
  qed
qed

lemma fetch_snapshot_rows:
  assumes "distinct (map fst players)"
  shows "list_all2 (\<lambda>rec row. fst row = fst rec \<and> entry_of_record net queue (snd rec) (snd row))
           players (fst (fetch_snapshot pyfloat net queue players tr))"
  using snapshot_loop_spec[OF assms, of "[]" pyfloat net queue tr]
  by (simp add: fetch_snapshot_def)

lemma fetch_snapshot_names:
  assumes "distinct (map fst players)"
  shows "map fst (fst (fetch_snapshot pyfloat net queue players tr)) = map fst players"
proof -
  have "list_all2 (\<lambda>rec row. fst row = fst rec) players (fst (fetch_snapshot pyfloat net queue players tr))"
    by (rule list_all2_mono[OF fetch_snapshot_rows[OF assms]]) simp
  then show ?thesis
    by (induction rule: list_all2_induct) auto
qed

text \<open>
  C3. Whenever \<open>sort_snapshot\<close> returns, the rows with a given score stand in the
  output in the order they have in the snapshot, the output is a permutation of the
  snapshot in descending order of score, and the snapshot itself lists the players in
  roster order. \<open>sort_snapshot\<close> and \<open>fetch_snapshot\<close> are functions of the roster and
  of what the requests meet: the same inputs give the same rows.
\<close>

theorem sort_snapshot_stable:
  assumes "sort_snapshot snap = Inr rows"
  shows "filter (\<lambda>kv. score_for_sort (snd kv) = Inr k) rows
           = filter (\<lambda>kv. score_for_sort (snd kv) = Inr k) snap
         \<and> mset rows = mset snap
         \<and> (\<exists>ks. sort_keys rows = Inr ks \<and> sorted (rev ks))
         \<and> (distinct (map fst players) \<longrightarrow>
              map fst (fst (fetch_snapshot pyfloat net queue players tr)) = map fst players)"
  using sort_snapshot_filter[OF assms] sort_snapshot_mset[OF assms]
    sort_snapshot_descending[OF assms] fetch_snapshot_names
  by blast

text \<open>The example snapshot: \<open>C\<close>, \<open>B\<close>, then the two unranked players \<open>A\<close> and \<open>D\<close> in roster order.\<close>

theorem sort_snapshot_stable_witness:
  "sort_snapshot example_snapshot
     = Inr [(py ''C'', Some example_platinum), (py ''B'', Some example_gold),
            (py ''A'', None), (py ''D'', None)]
   \<and> filter (\<lambda>kv. score_for_sort (snd kv) = Inr (- 1))
        [(py ''C'', Some example_platinum), (py ''B'', Some example_gold),
         (py ''A'', None), (py ''D'', None)]
       = filter (\<lambda>kv. score_for_sort (snd kv) = Inr (- 1)) example_snapshot
   \<and> distinct (map fst example_roster)
   \<and> map fst (fst (fetch_snapshot no_float example_net DEFAULT_QUEUE example_roster []))
       = map fst example_roster"
proof -
  have s: "sort_snapshot example_snapshot
     = Inr [(py ''C'', Some example_platinum), (py ''B'', Some example_gold),
            (py ''A'', None), (py ''D'', None)]"
    by code_simp
  have d: "distinct (map fst example_roster)" by code_simp
  from sort_snapshot_stable[OF s, of "- 1" example_roster no_float example_net DEFAULT_QUEUE "[]"] s d
  show ?thesis by blast
qed

section \<open>Fetching league entries\<close>

lemma get_loop_definitive:
  assumes "definitive_failure (net url (request_count tr))"
  shows "get_loop pyfloat net url i (Suc k) tr = (Inr (JScalar PNone), tr @ [Request url])"
  using try_body_definitive[OF assms, of pyfloat i] by auto

lemma get_loop_success:
  assumes "net url (request_count tr) = Response st ra (Some v)" "st < 400"
  shows "get_loop pyfloat net url i (Suc k) tr = (Inr v, tr @ [Request url])"
  using try_body_success[OF assms(2), of pyfloat ra v i] assms(1) by simp

lemma get_loop_no_success:
  assumes "\<not> succeeds (net url (request_count tr))"
  shows "(get_loop pyfloat net url i (Suc k) tr = (Inr (JScalar PNone), tr @ [Request url]))
       \<or> (\<exists>w ra body. net url (request_count tr) = Response 429 ra body
             \<and> retry_wait pyfloat ra i = Inr w
             \<and> get_loop pyfloat net url i (Suc k) tr
                 = get_loop pyfloat net url (Suc i) k (tr @ [Request url, Sleep w]))"
  using try_body_cases[of pyfloat "net url (request_count tr)" i] assms
  by (elim disjE exE conjE) auto


lemma get_loop_two_failures:
  assumes "\<not> succeeds (net url (request_count tr))"
    and "\<not> succeeds (net url (Suc (request_count tr)))"
  shows "fst (get_loop pyfloat net url i 2 tr) = Inr (JScalar PNone)"
proof -
  have two: "(2::nat) = Suc (Suc 0)" by simp
  from get_loop_no_success[of net url tr pyfloat i "Suc 0"] assms(1)
  have "(get_loop pyfloat net url i (Suc (Suc 0)) tr = (Inr (JScalar PNone), tr @ [Request url]))
       \<or> (\<exists>w ra body. net url (request_count tr) = Response 429 ra body
             \<and> retry_wait pyfloat ra i = Inr w
             \<and> get_loop pyfloat net url i (Suc (Suc 0)) tr
                 = get_loop pyfloat net url (Suc i) (Suc 0) (tr @ [Request url, Sleep w]))"
    by blast
  then show ?thesis
  proof (elim disjE exE conjE)
    assume "get_loop pyfloat net url i (Suc (Suc 0)) tr = (Inr (JScalar PNone), tr @ [Request url])"
    then show ?thesis by (simp add: two)
  next
    fix w ra body
    assume g: "get_loop pyfloat net url i (Suc (Suc 0)) tr
                 = get_loop pyfloat net url (Suc i) (Suc 0) (tr @ [Request url, Sleep w])"
    have n: "\<not> succeeds (net url (request_count (tr @ [Request url, Sleep w])))"
      using assms(2) by simp
    from get_loop_no_success[of net url "tr @ [Request url, Sleep w]" pyfloat "Suc i" 0] n
    have "fst (get_loop pyfloat net url (Suc i) (Suc 0) (tr @ [Request url, Sleep w]))
            = Inr (JScalar PNone)"
      by auto
    with g show ?thesis by (simp add: two)
  qed
qed

lemma league_entries_fst:
  "fst (league_entries_by_puuid_euw pyfloat net puuid tr)
     = (case fst (client_get pyfloat net (league_url puuid) 2 tr) of
          Inl err \<Rightarrow> Inl err
        | Inr d \<Rightarrow> Inr (if json_truthy d then d else JArray []))"
  by (simp add: league_entries_by_puuid_euw_def split: prod.splits sum.splits)


text \<open>
  C6. For every puuid, every network and every trace so far,
  \<open>league_entries_by_puuid_euw\<close> raises nothing. What it returns is the empty list or
  the decoded body of a response below 400. It is the empty list when the first request
  fails for good (no connection, any other exception of the request, a status from 400
  on other than 429, a body that does not decode) and when neither of the two attempts
  succeeds; a first response below 400 with a list as its body gives that list. When
  the service keeps its contract, every decoded body a list, the result is a list.
\<close>

theorem league_entries_degrade_to_empty:
  "\<exists>v. fst (league_entries_by_puuid_euw pyfloat net puuid tr) = Inr v
     \<and> (v = JArray []
         \<or> (json_truthy v
             \<and> (\<exists>k st ra. net (league_url puuid) k = Response st ra (Some v) \<and> st < 400)))
     \<and> (definitive_failure (net (league_url puuid) (request_count tr)) \<longrightarrow> v = JArray [])
     \<and> (\<not> succeeds (net (league_url puuid) (request_count tr))
          \<and> \<not> succeeds (net (league_url puuid) (Suc (request_count tr)))
         \<longrightarrow> v = JArray [])
     \<and> (\<forall>st ra xs. net (league_url puuid) (request_count tr) = Response st ra (Some (JArray xs))
           \<and> st < 400 \<longrightarrow> v = JArray xs)
     \<and> ((\<forall>k st ra b. net (league_url puuid) k = Response st ra (Some b) \<longrightarrow> (\<exists>xs. b = JArray xs))
          \<longrightarrow> (\<exists>xs. v = JArray xs))"
proof -
  let ?url = "league_url puuid"
  let ?r = "league_entries_by_puuid_euw pyfloat net puuid tr"
  have two: "(2::nat) = Suc (Suc 0)" by simp
  from league_entries_result[of pyfloat net puuid tr "fst ?r" "snd ?r"]
  obtain v where v: "fst ?r = Inr v"
    and prov: "v = JArray [] \<or> (json_truthy v
             \<and> (\<exists>k st ra. net ?url k = Response st ra (Some v) \<and> st < 400))"
    by auto
  have a: "v = JArray []" if "definitive_failure (net ?url (request_count tr))"
    using get_loop_definitive[of net ?url tr pyfloat 0 "Suc 0"] that v
    by (simp add: league_entries_fst client_get_def two)
  have b: "v = JArray []" if "\<not> succeeds (net ?url (request_count tr))"
    "\<not> succeeds (net ?url (Suc (request_count tr)))"
    using get_loop_two_failures[of net ?url tr pyfloat 0] that v
    by (simp add: league_entries_fst client_get_def)
  have c: "v = JArray xs" if "net ?url (request_count tr) = Response st ra (Some (JArray xs))"
    "st < 400" for st ra xs
    using get_loop_success[of net ?url tr st ra "JArray xs" pyfloat 0 "Suc 0"] that v
    by (cases xs) (simp_all add: league_entries_fst client_get_def two)
  have d: "\<exists>xs. v = JArray xs"
    if "\<forall>k st ra b. net ?url k = Response st ra (Some b) \<longrightarrow> (\<exists>xs. b = JArray xs)"
    using prov that by blast
  from v prov a b c d show ?thesis by blast
qed

text \<open>No connection for \<open>D\<close> gives the empty list; the response for \<open>C\<close> gives its list.\<close>

theorem league_entries_degrade_to_empty_witness:
  "definitive_failure (example_net (league_url (PStr (py ''puuid-d''))) (request_count []))
   \<and> fst (league_entries_by_puuid_euw no_float example_net (PStr (py ''puuid-d'')) [])
       = Inr (JArray [])
   \<and> example_net (league_url (PStr (py ''puuid-c''))) (request_count [])
       = Response 200 None (Some (JArray [JObject example_platinum]))
   \<and> fst (league_entries_by_puuid_euw no_float example_net (PStr (py ''puuid-c'')) [])
       = Inr (JArray [JObject example_platinum])"
proof -
  have d: "definitive_failure (example_net (league_url (PStr (py ''puuid-d''))) (request_count []))"
    by code_simp
  have c: "example_net (league_url (PStr (py ''puuid-c''))) (request_count [])
       = Response 200 None (Some (JArray [JObject example_platinum]))"
    by code_simp
  from league_entries_degrade_to_empty[of no_float example_net "PStr (py ''puuid-d'')" "[]"] d
  have 1: "fst (league_entries_by_puuid_euw no_float example_net (PStr (py ''puuid-d'')) [])
       = Inr (JArray [])"
    by auto
  from league_entries_degrade_to_empty[of no_float example_net "PStr (py ''puuid-c'')" "[]"] c
  have 2: "fst (league_entries_by_puuid_euw no_float example_net (PStr (py ''puuid-c'')) [])
       = Inr (JArray [JObject example_platinum])"
    by auto
  from d c 1 2 show ?thesis by blast
qed




lemma py_nonempty: "py (c # cs) \<noteq> []"
  by (simp add: py_def)



section \<open>Splitting and resolving a Riot ID\<close>

lemma hash_not_space: "\<not> isspace HASH"
  by (simp add: isspace_def HASH_def)

lemma strip_around:
  assumes "\<not> isspace x"
  shows "strip (a @ x # b) = dropWhile isspace a @ x # rev (dropWhile isspace (rev b))"
  using assms by (simp add: strip_def dropWhile_append3)

lemma strip_all_space:
  assumes "\<forall>c\<in>set s. isspace c"
  shows "strip s = []"
  using assms by (auto simp: strip_def dest: set_dropWhileD)

lemma split_first_nonspace:
  assumes "\<not> (\<forall>c\<in>set s. isspace c)"
  obtains a x b where "s = a @ x # b" "\<forall>c\<in>set a. isspace c" "\<not> isspace x"
proof -
  let ?a = "takeWhile isspace s" and ?d = "dropWhile isspace s"
  from assms have ne: "?d \<noteq> []" by auto
  then have "\<not> isspace (hd ?d)" by (rule hd_dropWhile)
  moreover have "s = ?a @ hd ?d # tl ?d" using ne by simp
  moreover have "\<forall>c\<in>set ?a. isspace c" by (auto dest: set_takeWhileD)
  ultimately show ?thesis using that by blast
qed

lemma strip_lstrip: "strip (dropWhile isspace s) = strip s"
  by (simp add: strip_def)

lemma strip_rstrip: "strip (rev (dropWhile isspace (rev s))) = strip s"
proof (cases "\<forall>c\<in>set s. isspace c")
  case True
  then have "\<forall>c\<in>set (rev (dropWhile isspace (rev s))). isspace c"
    by (auto dest: set_dropWhileD)
  then have "strip (rev (dropWhile isspace (rev s))) = []" by (rule strip_all_space)
  with strip_all_space[OF True] show ?thesis by simp
next
  case False
  then obtain a x b where s: "s = a @ x # b" and a: "\<forall>c\<in>set a. isspace c" and x: "\<not> isspace x"
    by (rule split_first_nonspace)
  have "rev (dropWhile isspace (rev s)) = a @ x # rev (dropWhile isspace (rev b))"
    using x by (simp add: s dropWhile_append3)
  then have "strip (rev (dropWhile isspace (rev s)))
               = dropWhile isspace a @ x # rev (dropWhile isspace (rev (rev (dropWhile isspace (rev b)))))"
    using strip_around[OF x] by simp
  also have "\<dots> = dropWhile isspace a @ x # rev (dropWhile isspace (rev b))"
    by simp
  also have "\<dots> = strip s" using strip_around[OF x] by (simp add: s)
  finally show ?thesis .
qed

lemma strip_idem: "strip (strip s) = strip s"
proof -
  have "strip (strip s) = strip (dropWhile isspace s)"
    unfolding strip_def[of s] by (rule strip_rstrip)
  then show ?thesis by (simp add: strip_lstrip)
qed

lemma set_strip: "set (strip s) \<subseteq> set s"
proof -
  have "set (strip s) \<subseteq> set (dropWhile isspace s)"
    unfolding strip_def by (auto dest: set_dropWhileD)
  then show ?thesis by (auto dest: set_dropWhileD)
qed

lemma split_at_hash:
  assumes "HASH \<in> set z"
  shows "z = takeWhile (\<lambda>c. c \<noteq> HASH) z @ HASH # tl (dropWhile (\<lambda>c. c \<noteq> HASH) z)"
    and "HASH \<notin> set (takeWhile (\<lambda>c. c \<noteq> HASH) z)"
proof -
  let ?d = "dropWhile (\<lambda>c. c \<noteq> HASH) z"
  from assms have ne: "?d \<noteq> []" by auto
  then have "\<not> (hd ?d \<noteq> HASH)" by (rule hd_dropWhile)
  then have "?d = HASH # tl ?d" using ne by (cases ?d) auto
  then show "z = takeWhile (\<lambda>c. c \<noteq> HASH) z @ HASH # tl ?d"
    by (metis takeWhile_dropWhile_id)
  show "HASH \<notin> set (takeWhile (\<lambda>c. c \<noteq> HASH) z)"
    by (auto dest: set_takeWhileD)
qed

lemma split_pieces:
  assumes "HASH \<notin> set a"
  shows "takeWhile (\<lambda>c. c \<noteq> HASH) (a @ HASH # b) = a"
    and "tl (dropWhile (\<lambda>c. c \<noteq> HASH) (a @ HASH # b)) = b"
proof -
  from assms have all: "\<forall>c\<in>set a. c \<noteq> HASH" by auto
  then have t: "takeWhile (\<lambda>c. c \<noteq> HASH) a = a"
    by (simp only: takeWhile_eq_all_conv)
  from all have d: "dropWhile (\<lambda>c. c \<noteq> HASH) a = []"
    by (simp only: dropWhile_eq_Nil_conv)
  show "takeWhile (\<lambda>c. c \<noteq> HASH) (a @ HASH # b) = a"
    using t by (simp add: takeWhile_tail)
  show "tl (dropWhile (\<lambda>c. c \<noteq> HASH) (a @ HASH # b)) = b"
    using d by (simp add: dropWhile_append3)
qed

text \<open>Stripping the whole string first does not change the stripped parts.\<close>

lemma strip_then_split:
  assumes "HASH \<in> set z"
  shows "HASH \<in> set (strip z)"
    and "strip (takeWhile (\<lambda>c. c \<noteq> HASH) (strip z)) = strip (takeWhile (\<lambda>c. c \<noteq> HASH) z)"
    and "strip (tl (dropWhile (\<lambda>c. c \<noteq> HASH) (strip z)))
           = strip (tl (dropWhile (\<lambda>c. c \<noteq> HASH) z))"
proof -
  let ?a = "takeWhile (\<lambda>c. c \<noteq> HASH) z" and ?b = "tl (dropWhile (\<lambda>c. c \<noteq> HASH) z)"
  note z = split_at_hash[OF assms]
  have s: "strip z = dropWhile isspace ?a @ HASH # rev (dropWhile isspace (rev ?b))"
    using strip_around[OF hash_not_space, of ?a ?b] z(1) by simp
  have na: "HASH \<notin> set (dropWhile isspace ?a)"
    using z(2) by (auto dest: set_dropWhileD)
  show "HASH \<in> set (strip z)" by (simp add: s)
  show "strip (takeWhile (\<lambda>c. c \<noteq> HASH) (strip z)) = strip ?a"
    using split_pieces(1)[OF na] by (simp add: s strip_lstrip)
  show "strip (tl (dropWhile (\<lambda>c. c \<noteq> HASH) (strip z))) = strip ?b"
    using split_pieces(2)[OF na] by (simp add: s strip_rstrip)
qed

lemma split_riot_id_no_hash:
  assumes "HASH \<notin> set (nfc s)"
  shows "split_riot_id nfc s = (strip (nfc s), None)"
proof -
  from assms set_strip[of "nfc s"] have "HASH \<notin> set (strip (nfc s))" by blast
  then show ?thesis by (simp add: split_riot_id_def sanitize_user_key_def Let_def)
qed

lemma split_riot_id_hash:
  assumes "HASH \<in> set (nfc s)"
  shows "split_riot_id nfc s
           = (strip (takeWhile (\<lambda>c. c \<noteq> HASH) (nfc s)),
              Some (strip (tl (dropWhile (\<lambda>c. c \<noteq> HASH) (nfc s)))))"
  using strip_then_split[OF assms]
  by (simp add: split_riot_id_def sanitize_user_key_def Let_def)

lemma nfc_keeps_hash_mem:
  assumes "nfc_keeps_hash nfc"
  shows "HASH \<in> set (nfc s) \<longleftrightarrow> HASH \<in> set s"
proof -
  have "count_list (nfc s) HASH = 0 \<longleftrightarrow> count_list s HASH = 0"
    using assms by (simp add: nfc_keeps_hash_def)
  then show ?thesis by (simp only: count_list_0_iff) blast
qed

lemma get_loop_first_request:
  "\<exists>rest. snd (get_loop pyfloat net url i (Suc k) tr) = tr @ Request url # rest
      \<and> (\<forall>e\<in>set rest. is_request e \<longrightarrow> e = Request url)"
proof (cases "try_body pyfloat (net url (request_count tr)) i")
  case (Inl err)
  then show ?thesis by simp
next
  case (Inr a)
  show ?thesis
  proof (cases a)
    case (Return v)
    with Inr show ?thesis by simp
  next
    case (Continue w)
    from get_loop_trace[of pyfloat net url "Suc i" k "tr @ [Request url, Sleep w]"]
    obtain added where a: "snd (get_loop pyfloat net url (Suc i) k (tr @ [Request url, Sleep w]))
                    = (tr @ [Request url, Sleep w]) @ added"
        "\<forall>e\<in>set added. is_request e \<longrightarrow> e = Request url"
      by blast
    have "snd (get_loop pyfloat net url i (Suc k) tr) = tr @ Request url # (Sleep w # added)"
      using Inr Continue a(1) by simp
    moreover have "\<forall>e\<in>set (Sleep w # added). is_request e \<longrightarrow> e = Request url"
      using a(2) by simp
    ultimately show ?thesis by blast
  qed
qed

lemma account_trace:
  "\<exists>added. snd (account_by_riot_id_eu pyfloat net game tag tr) = tr @ added
      \<and> (\<forall>e\<in>set added. is_request e \<longrightarrow> (\<exists>url. account_url game tag = Inr url \<and> e = Request url))
      \<and> (\<forall>url. account_url game tag = Inr url \<longrightarrow> (\<exists>rest. added = Request url # rest))"
proof (cases "account_url game tag")
  case (Inl err)
  then show ?thesis by (simp add: account_by_riot_id_eu_def)
next
  case (Inr url)
  have two: "(2::nat) = Suc (Suc 0)" by simp
  from get_loop_first_request[of pyfloat net url 0 "Suc 0" tr] obtain rest
    where r: "snd (get_loop pyfloat net url 0 (Suc (Suc 0)) tr) = tr @ Request url # rest"
      "\<forall>e\<in>set rest. is_request e \<longrightarrow> e = Request url"
    by blast
  have "snd (account_by_riot_id_eu pyfloat net game tag tr) = tr @ (Request url # rest)"
    using Inr r(1) by (simp add: account_by_riot_id_eu_def client_get_def two)
  moreover have "\<forall>e\<in>set (Request url # rest). is_request e \<longrightarrow>
      (\<exists>u. account_url game tag = Inr u \<and> e = Request u)"
    using Inr r(2) by simp
  moreover have "\<forall>u. account_url game tag = Inr u \<longrightarrow> (\<exists>rest'. Request url # rest = Request u # rest')"
    using Inr by simp
  ultimately show ?thesis by blast
qed

lemma resolve_no_hash:
  assumes "HASH \<notin> set (nfc s)"
  shows "resolve_puuid_from_riot_id nfc pyfloat net s tr = (Inr PNone, tr)"
  using split_riot_id_no_hash[of nfc s] assms by (simp add: resolve_puuid_from_riot_id_def)

lemma resolve_tag:
  assumes "split_riot_id nfc s = (game, Some tag)" "tag \<noteq> []"
  shows "resolve_puuid_from_riot_id nfc pyfloat net s tr
           = (case account_by_riot_id_eu pyfloat net game tag tr of
                (Inl err, tr') \<Rightarrow> (Inl err, tr')
              | (Inr acct, tr') \<Rightarrow> (account_puuid acct, tr'))"
  using assms by (simp add: resolve_puuid_from_riot_id_def)

lemma resolve_snd:
  assumes "split_riot_id nfc s = (game, Some tag)"
  shows "snd (resolve_puuid_from_riot_id nfc pyfloat net s tr)
           = (if tag = [] then tr else snd (account_by_riot_id_eu pyfloat net game tag tr))"
  using assms by (simp add: resolve_puuid_from_riot_id_def split: prod.splits sum.splits)

lemma strip_ends:
  "strip s = [] \<or> (\<not> isspace (hd (strip s)) \<and> \<not> isspace (last (strip s)))"
proof (cases "\<forall>c\<in>set s. isspace c")
  case True
  then show ?thesis by (simp add: strip_all_space)
next
  case False
  then obtain a x b where s: "s = a @ x # b" and a: "\<forall>c\<in>set a. isspace c" and x: "\<not> isspace x"
    by (rule split_first_nonspace)
  from a have da: "dropWhile isspace a = []" by (simp only: dropWhile_eq_Nil_conv)
  let ?d = "dropWhile isspace (rev b)"
  have st: "strip s = x # rev ?d" using strip_around[OF x, of a b] da by (simp add: s)
  have "\<not> isspace (last (x # rev ?d))"
  proof (cases "?d = []")
    case True
    with x show ?thesis by simp
  next
    case False
    then have nd: "\<not> isspace (hd ?d)" by (rule hd_dropWhile)
    from False have "rev ?d \<noteq> []" by (simp only: rev_is_Nil_conv not_False_eq_True)
    then have "last (x # rev ?d) = last (rev ?d)" by (rule last_ConsR)
    also have "\<dots> = hd ?d" by (rule last_rev)
    finally show ?thesis using nd by simp
  qed
  with st x show ?thesis by simp
qed

lemma account_url_Inr:
  assumes "account_url game tag = Inr url"
  shows "\<exists>game_q tag_q. quote game = Inr game_q \<and> quote tag = Inr tag_q
           \<and> url = account_base_europe @ py ''/riot/account/v1/accounts/by-riot-id/''
                     @ game_q @ py ''/'' @ tag_q"
  using assms by (auto simp: account_url_def split: sum.splits)

lemma resolve_split:
  assumes "split_riot_id nfc s = (game, Some tag)"
  shows "resolve_puuid_from_riot_id nfc pyfloat net s tr
           = (if tag = [] then (Inr PNone, tr)
              else (case account_by_riot_id_eu pyfloat net game tag tr of
                      (Inl err, tr') \<Rightarrow> (Inl err, tr')
                    | (Inr acct, tr') \<Rightarrow> (account_puuid acct, tr')))"
  using assms by (simp add: resolve_puuid_from_riot_id_def)

text \<open>
  C5. With a normalisation that keeps every \<open>#\<close>: for an identity without a \<open>#\<close>,
  \<open>resolve_puuid_from_riot_id\<close> returns \<open>None\<close> and the trace is unchanged, so no
  request was made. For an identity with a \<open>#\<close>, the name part is the stripped text
  before the first \<open>#\<close> of the normalised string and the tag part the stripped text
  after it: stripping them again changes nothing, and neither begins or ends with a
  whitespace character. The resolution returns \<open>None\<close> without a request when the tag
  is empty and is the account lookup of these two parts otherwise, and every request it
  makes is for the account path that holds the percent-encoded name part, a slash and
  the percent-encoded tag part.
\<close>

theorem resolve_validates_and_strips:
  assumes "nfc_keeps_hash nfc"
  shows "(HASH \<notin> set s \<longrightarrow> resolve_puuid_from_riot_id nfc pyfloat net s tr = (Inr PNone, tr))
         \<and> (HASH \<in> set s \<longrightarrow>
              (\<exists>game tag.
                 game = strip (takeWhile (\<lambda>c. c \<noteq> HASH) (nfc s))
                 \<and> tag = strip (tl (dropWhile (\<lambda>c. c \<noteq> HASH) (nfc s)))
                 \<and> split_riot_id nfc s = (game, Some tag)
                 \<and> strip game = game \<and> strip tag = tag
                 \<and> (game = [] \<or> (\<not> isspace (hd game) \<and> \<not> isspace (last game)))
                 \<and> (tag = [] \<or> (\<not> isspace (hd tag) \<and> \<not> isspace (last tag)))
                 \<and> resolve_puuid_from_riot_id nfc pyfloat net s tr
                     = (if tag = [] then (Inr PNone, tr)
                        else (case account_by_riot_id_eu pyfloat net game tag tr of
                                (Inl err, tr') \<Rightarrow> (Inl err, tr')
                              | (Inr acct, tr') \<Rightarrow> (account_puuid acct, tr')))
                 \<and> (\<exists>added. snd (resolve_puuid_from_riot_id nfc pyfloat net s tr) = tr @ added
                       \<and> (\<forall>e\<in>set added. is_request e \<longrightarrow>
                             (\<exists>game_q tag_q.
                                quote game = Inr game_q \<and> quote tag = Inr tag_q
                                \<and> e = Request (account_base_europe
                                                @ py ''/riot/account/v1/accounts/by-riot-id/''
                                                @ game_q @ py ''/'' @ tag_q))))))"
proof (intro conjI impI)
  assume "HASH \<notin> set s"
  then have "HASH \<notin> set (nfc s)" using nfc_keeps_hash_mem[OF assms] by simp
  then show "resolve_puuid_from_riot_id nfc pyfloat net s tr = (Inr PNone, tr)"
    by (rule resolve_no_hash)
next
  assume "HASH \<in> set s"
  then have h: "HASH \<in> set (nfc s)" using nfc_keeps_hash_mem[OF assms] by simp
  define game where "game = strip (takeWhile (\<lambda>c. c \<noteq> HASH) (nfc s))"
  define tag where "tag = strip (tl (dropWhile (\<lambda>c. c \<noteq> HASH) (nfc s)))"
  have sp: "split_riot_id nfc s = (game, Some tag)"
    using split_riot_id_hash[of nfc s] h by (simp add: game_def tag_def)
  have fixed: "strip game = game" "strip tag = tag"
    by (simp_all add: game_def tag_def strip_idem)
  have ends: "game = [] \<or> (\<not> isspace (hd game) \<and> \<not> isspace (last game))"
    "tag = [] \<or> (\<not> isspace (hd tag) \<and> \<not> isspace (last tag))"
    unfolding game_def tag_def by (rule strip_ends)+
  have res: "resolve_puuid_from_riot_id nfc pyfloat net s tr
               = (if tag = [] then (Inr PNone, tr)
                  else (case account_by_riot_id_eu pyfloat net game tag tr of
                          (Inl err, tr') \<Rightarrow> (Inl err, tr')
                        | (Inr acct, tr') \<Rightarrow> (account_puuid acct, tr')))"
    by (rule resolve_split[OF sp])
  have tr: "\<exists>added. snd (resolve_puuid_from_riot_id nfc pyfloat net s tr) = tr @ added
           \<and> (\<forall>e\<in>set added. is_request e \<longrightarrow>
                 (\<exists>game_q tag_q.
                    quote game = Inr game_q \<and> quote tag = Inr tag_q
                    \<and> e = Request (account_base_europe
                                    @ py ''/riot/account/v1/accounts/by-riot-id/''
                                    @ game_q @ py ''/'' @ tag_q)))"
  proof (cases "tag = []")
    case True
    then have "snd (resolve_puuid_from_riot_id nfc pyfloat net s tr) = tr @ []"
      by (simp add: resolve_snd[OF sp])
    then show ?thesis by (intro exI[of _ "[]"]) simp
  next
    case False
    then have e: "snd (resolve_puuid_from_riot_id nfc pyfloat net s tr)
                 = snd (account_by_riot_id_eu pyfloat net game tag tr)"
      by (simp add: resolve_snd[OF sp])
    from account_trace[of pyfloat net game tag tr] obtain added
      where a: "snd (account_by_riot_id_eu pyfloat net game tag tr) = tr @ added"
        and r: "\<forall>e\<in>set added. is_request e \<longrightarrow>
                  (\<exists>url. account_url game tag = Inr url \<and> e = Request url)"
      by blast
    have "\<forall>e\<in>set added. is_request e \<longrightarrow>
                 (\<exists>game_q tag_q.
                    quote game = Inr game_q \<and> quote tag = Inr tag_q
                    \<and> e = Request (account_base_europe
                                    @ py ''/riot/account/v1/accounts/by-riot-id/''
                                    @ game_q @ py ''/'' @ tag_q))"
    proof (intro ballI impI)
      fix e assume "e \<in> set added" "is_request e"
      with r obtain url where u: "account_url game tag = Inr url" "e = Request url" by blast
      from account_url_Inr[OF u(1)] u(2)
      show "\<exists>game_q tag_q.
                    quote game = Inr game_q \<and> quote tag = Inr tag_q
                    \<and> e = Request (account_base_europe
                                    @ py ''/riot/account/v1/accounts/by-riot-id/''
                                    @ game_q @ py ''/'' @ tag_q)"
        by blast
    qed
    with a e show ?thesis by (intro exI[of _ added]) simp
  qed
  from game_def tag_def sp fixed ends res tr
  show "\<exists>game tag.
                 game = strip (takeWhile (\<lambda>c. c \<noteq> HASH) (nfc s))
                 \<and> tag = strip (tl (dropWhile (\<lambda>c. c \<noteq> HASH) (nfc s)))
                 \<and> split_riot_id nfc s = (game, Some tag)
                 \<and> strip game = game \<and> strip tag = tag
                 \<and> (game = [] \<or> (\<not> isspace (hd game) \<and> \<not> isspace (last game)))
                 \<and> (tag = [] \<or> (\<not> isspace (hd tag) \<and> \<not> isspace (last tag)))
                 \<and> resolve_puuid_from_riot_id nfc pyfloat net s tr
                     = (if tag = [] then (Inr PNone, tr)
                        else (case account_by_riot_id_eu pyfloat net game tag tr of
                                (Inl err, tr') \<Rightarrow> (Inl err, tr')
                              | (Inr acct, tr') \<Rightarrow> (account_puuid acct, tr')))
                 \<and> (\<exists>added. snd (resolve_puuid_from_riot_id nfc pyfloat net s tr) = tr @ added
                       \<and> (\<forall>e\<in>set added. is_request e \<longrightarrow>
                             (\<exists>game_q tag_q.
                                quote game = Inr game_q \<and> quote tag = Inr tag_q
                                \<and> e = Request (account_base_europe
                                                @ py ''/riot/account/v1/accounts/by-riot-id/''
                                                @ game_q @ py ''/'' @ tag_q))))"
    by blast
qed

text \<open>\<open>Ana EUW\<close> makes no request; \<open>"  Ana # EUW "\<close> is looked up as \<open>Ana\<close> and \<open>EUW\<close>.\<close>

theorem resolve_validates_and_strips_witness:
  "nfc_keeps_hash (\<lambda>s. s)
   \<and> HASH \<notin> set (py ''Ana EUW'')
   \<and> resolve_puuid_from_riot_id (\<lambda>s. s) no_float account_net (py ''Ana EUW'') [] = (Inr PNone, [])
   \<and> HASH \<in> set (py ''  Ana # EUW '')
   \<and> split_riot_id (\<lambda>s. s) (py ''  Ana # EUW '') = (py ''Ana'', Some (py ''EUW''))
   \<and> resolve_puuid_from_riot_id (\<lambda>s. s) no_float account_net (py ''  Ana # EUW '') []
       = (Inr (PStr (py ''puuid-a'')),
          [Request (account_base_europe @ py ''/riot/account/v1/accounts/by-riot-id/Ana/EUW'')])"
proof -
  have k: "nfc_keeps_hash (\<lambda>s. s)" by (simp add: nfc_keeps_hash_def)
  have n: "HASH \<notin> set (py ''Ana EUW'')" by code_simp
  have h: "HASH \<in> set (py ''  Ana # EUW '')" by code_simp
  have sp: "split_riot_id (\<lambda>s. s) (py ''  Ana # EUW '') = (py ''Ana'', Some (py ''EUW''))"
    by code_simp
  have r: "resolve_puuid_from_riot_id (\<lambda>s. s) no_float account_net (py ''  Ana # EUW '') []
       = (Inr (PStr (py ''puuid-a'')),
          [Request (account_base_europe @ py ''/riot/account/v1/accounts/by-riot-id/Ana/EUW'')])"
    by code_simp
  from resolve_validates_and_strips[OF k, of "py ''Ana EUW''" no_float account_net "[]"] n
  have "resolve_puuid_from_riot_id (\<lambda>s. s) no_float account_net (py ''Ana EUW'') [] = (Inr PNone, [])"
    by blast
  with k n h sp r show ?thesis by blast
qed

lemma second_hash_in_tag:
  assumes "1 < count_list z HASH"
  shows "HASH \<in> set z" and "HASH \<in> set (strip (tl (dropWhile (\<lambda>c. c \<noteq> HASH) z)))"
proof -
  from assms have "count_list z HASH \<noteq> 0" by simp
  then show h: "HASH \<in> set z" by (simp only: count_list_0_iff) simp
  let ?a = "takeWhile (\<lambda>c. c \<noteq> HASH) z" and ?b = "tl (dropWhile (\<lambda>c. c \<noteq> HASH) z)"
  note z = split_at_hash[OF h]
  have "count_list z HASH = count_list (?a @ HASH # ?b) HASH" using z(1) by simp
  also have "\<dots> = count_list ?a HASH + 1 + count_list ?b HASH" by simp
  also have "count_list ?a HASH = 0" using z(2) by (simp only: count_list_0_iff) simp
  finally have "count_list ?b HASH \<noteq> 0" using assms by simp
  then have "HASH \<in> set ?b" by (simp only: count_list_0_iff) simp
  then show "HASH \<in> set (strip ?b)" by (rule strip_then_split(1))
qed

text \<open>
  C10. With a normalisation that keeps every \<open>#\<close>: for an identity with more than one
  \<open>#\<close>, the name part is the stripped text before the first \<open>#\<close> of the normalised
  string and the tag part is the stripped text after it, which still holds a \<open>#\<close>. The
  tag is not empty, so the resolution is the account lookup of the two parts, and when
  both parts can be percent-encoded its first step is the request for their URL.
\<close>

theorem split_at_first_hash:
  assumes "nfc_keeps_hash nfc" and "1 < count_list s HASH"
  shows "\<exists>game tag.
           split_riot_id nfc s = (game, Some tag)
           \<and> game = strip (takeWhile (\<lambda>c. c \<noteq> HASH) (nfc s))
           \<and> tag = strip (tl (dropWhile (\<lambda>c. c \<noteq> HASH) (nfc s)))
           \<and> HASH \<in> set tag
           \<and> resolve_puuid_from_riot_id nfc pyfloat net s tr
               = (case account_by_riot_id_eu pyfloat net game tag tr of
                    (Inl err, tr') \<Rightarrow> (Inl err, tr')
                  | (Inr acct, tr') \<Rightarrow> (account_puuid acct, tr'))
           \<and> (\<forall>url. account_url game tag = Inr url \<longrightarrow>
                 (\<exists>rest. snd (resolve_puuid_from_riot_id nfc pyfloat net s tr)
                            = tr @ Request url # rest))"
proof -
  let ?game = "strip (takeWhile (\<lambda>c. c \<noteq> HASH) (nfc s))"
  let ?tag = "strip (tl (dropWhile (\<lambda>c. c \<noteq> HASH) (nfc s)))"
  from assms have c: "1 < count_list (nfc s) HASH" by (simp add: nfc_keeps_hash_def)
  note h = second_hash_in_tag[OF c]
  have sp: "split_riot_id nfc s = (?game, Some ?tag)"
    using split_riot_id_hash[of nfc s] h(1) by simp
  from h(2) have ne: "?tag \<noteq> []" by auto
  have r: "resolve_puuid_from_riot_id nfc pyfloat net s tr
               = (case account_by_riot_id_eu pyfloat net ?game ?tag tr of
                    (Inl err, tr') \<Rightarrow> (Inl err, tr')
                  | (Inr acct, tr') \<Rightarrow> (account_puuid acct, tr'))"
    by (rule resolve_tag[OF sp ne])
  have t: "\<forall>url. account_url ?game ?tag = Inr url \<longrightarrow>
                 (\<exists>rest. snd (resolve_puuid_from_riot_id nfc pyfloat net s tr)
                            = tr @ Request url # rest)"
    using account_trace[of pyfloat net ?game ?tag tr] ne
    by (auto simp: resolve_snd[OF sp])
  from sp h(2) r t show ?thesis by blast
qed

text \<open>\<open>" Ana #EU#W "\<close> is split into \<open>Ana\<close> and \<open>EU#W\<close> and looked up under \<open>Ana/EU%23W\<close>.\<close>

theorem split_at_first_hash_witness:
  "nfc_keeps_hash (\<lambda>s. s)
   \<and> 1 < count_list (py '' Ana #EU#W '') HASH
   \<and> split_riot_id (\<lambda>s. s) (py '' Ana #EU#W '') = (py ''Ana'', Some (py ''EU#W''))
   \<and> HASH \<in> set (py ''EU#W'')
   \<and> resolve_puuid_from_riot_id (\<lambda>s. s) no_float account_net (py '' Ana #EU#W '') []
       = (Inr (PStr (py ''puuid-a'')),
          [Request (account_base_europe @ py ''/riot/account/v1/accounts/by-riot-id/Ana/EU%23W'')])"
proof -
  have k: "nfc_keeps_hash (\<lambda>s. s)" by (simp add: nfc_keeps_hash_def)
  have c: "1 < count_list (py '' Ana #EU#W '') HASH" by code_simp
  have sp: "split_riot_id (\<lambda>s. s) (py '' Ana #EU#W '') = (py ''Ana'', Some (py ''EU#W''))"
    by code_simp
  have r: "resolve_puuid_from_riot_id (\<lambda>s. s) no_float account_net (py '' Ana #EU#W '') []
       = (Inr (PStr (py ''puuid-a'')),
          [Request (account_base_europe @ py ''/riot/account/v1/accounts/by-riot-id/Ana/EU%23W'')])"
    by code_simp
  from split_at_first_hash[OF k c, of no_float account_net "[]"] sp
  have "HASH \<in> set (py ''EU#W'')" by auto
  with k c sp r show ?thesis by blast
qed

section \<open>The setplayer command\<close>

text \<open>
  C8, as the code has it. Let the resolution of the sanitised Riot ID end in \<open>res\<close>
  with the trace \<open>tr'\<close>. Without an API key \<open>setplayer\<close> answers that the key is
  missing and changes nothing. With a key: when the resolution raises, the exception
  leaves the command, and when it gives no puuid the command answers that it could not
  resolve; in both cases the roster in memory and the file are what they were. When the
  resolution gives a puuid, the roster in memory becomes the old one with the record of
  the sanitised Riot ID and the puuid under the display name, and it is written: when
  the write succeeds the command answers that the player is set and the file holds the
  roster in memory; when \<open>open\<close> fails an \<open>OSError\<close> leaves the command and the file
  is what it was; when \<open>json.dump\<close> fails an \<open>OSError\<close> leaves the command and the
  file is cut short. In both failures the roster in memory keeps the new record.
\<close>

theorem setplayer_outcomes:
  assumes "setplayer nfc pyfloat net w api_key display_name riot_id st = (r, st')"
    and "resolve_puuid_from_riot_id nfc pyfloat net (sanitize_user_key nfc riot_id) (trace st)
           = (res, tr')"
  shows "(api_key = [] \<longrightarrow> r = Inr KeyMissing \<and> st' = st)
         \<and> (api_key \<noteq> [] \<longrightarrow>
              (\<forall>err. res = Inl err \<longrightarrow>
                 r = Inl err \<and> data st' = data st \<and> data_file st' = data_file st
                 \<and> trace st' = tr')
              \<and> (\<forall>puuid. res = Inr puuid \<and> \<not> truthy puuid \<longrightarrow>
                   r = Inr CouldNotResolve \<and> data st' = data st
                   \<and> data_file st' = data_file st \<and> trace st' = tr')
              \<and> (\<forall>puuid. res = Inr puuid \<and> truthy puuid \<longrightarrow>
                   data st' = Some (AList.update display_name
                                      [(py ''riot_id'', PStr (sanitize_user_key nfc riot_id)),
                                       (py ''puuid'', puuid)]
                                      (case data st of None \<Rightarrow> [] | Some ps \<Rightarrow> ps))
                   \<and> (\<exists>players. data st' = Some players
                          \<and> map_of players
                              = (map_of (case data st of None \<Rightarrow> [] | Some ps \<Rightarrow> ps))
                                  (display_name \<mapsto>
                                     [(py ''riot_id'', PStr (sanitize_user_key nfc riot_id)),
                                      (py ''puuid'', puuid)]))
                   \<and> trace st' = tr'
                   \<and> (w = WriteOk \<longrightarrow> r = Inr PlayerSet \<and> data_file st' = Holds (data st'))
                   \<and> (w = OpenFails \<longrightarrow> r = Inl OSError \<and> data_file st' = data_file st)
                   \<and> (w = DumpFails \<longrightarrow> r = Inl OSError \<and> data_file st' = CutShort)))"
proof -
  let ?rec = "\<lambda>puuid. [(py ''riot_id'', PStr (sanitize_user_key nfc riot_id)), (py ''puuid'', puuid)]"
  let ?old = "case data st of None \<Rightarrow> [] | Some ps \<Rightarrow> ps"
  have 1: "r = Inr KeyMissing \<and> st' = st" if "api_key = []"
    using assms(1) that by (auto simp: setplayer_def)
  have 2: "r = Inl err \<and> data st' = data st \<and> data_file st' = data_file st \<and> trace st' = tr'"
    if "api_key \<noteq> []" "res = Inl err" for err
    using assms that by (auto simp: setplayer_def Let_def)
  have 3: "r = Inr CouldNotResolve \<and> data st' = data st \<and> data_file st' = data_file st
           \<and> trace st' = tr'"
    if "api_key \<noteq> []" "res = Inr puuid \<and> \<not> truthy puuid" for puuid
    using assms that by (auto simp: setplayer_def Let_def)
  have 4: "data st' = Some (AList.update display_name (?rec puuid) ?old)
           \<and> (\<exists>players. data st' = Some players
                  \<and> map_of players = (map_of ?old)(display_name \<mapsto> ?rec puuid))
           \<and> trace st' = tr'
           \<and> (w = WriteOk \<longrightarrow> r = Inr PlayerSet \<and> data_file st' = Holds (data st'))
           \<and> (w = OpenFails \<longrightarrow> r = Inl OSError \<and> data_file st' = data_file st)
           \<and> (w = DumpFails \<longrightarrow> r = Inl OSError \<and> data_file st' = CutShort)"
    if key: "api_key \<noteq> []" and p: "res = Inr puuid \<and> truthy puuid" for puuid
  proof -
    let ?d = "Some (AList.update display_name (?rec puuid) ?old)"
    from assms key p have run: "(r, st') =
        (case save_data w ?d (data_file st) of
           (Inl err, f') \<Rightarrow> (Inl err, st\<lparr>data := ?d, data_file := f', trace := tr'\<rparr>)
         | (Inr u, f') \<Rightarrow> (Inr PlayerSet, st\<lparr>data := ?d, data_file := f', trace := tr'\<rparr>))"
      by (simp add: setplayer_def Let_def)
    have d: "data st' = ?d" using run by (cases w) (simp_all add: save_data_def)
    have t: "trace st' = tr'" using run by (cases w) (simp_all add: save_data_def)
    have m: "\<exists>players. data st' = Some players
                  \<and> map_of players = (map_of ?old)(display_name \<mapsto> ?rec puuid)"
      using d by (simp add: update_conv')
    have ok: "r = Inr PlayerSet \<and> data_file st' = Holds (data st')" if "w = WriteOk"
      using run that by (simp add: save_data_def)
    have op: "r = Inl OSError \<and> data_file st' = data_file st" if "w = OpenFails"
      using run that by (simp add: save_data_def)
    have du: "r = Inl OSError \<and> data_file st' = CutShort" if "w = DumpFails"
      using run that by (simp add: save_data_def)
    from d m t ok op du show ?thesis by blast
  qed
  from 1 2 3 4 show ?thesis by blast
qed

text \<open>Setting \<open>Ana\<close> with a key, a resolution that succeeds and a write that succeeds.\<close>

theorem setplayer_outcomes_witness:
  "setplayer (\<lambda>s. s) no_float account_net WriteOk (py ''RGAPI-key'') (py ''Ana'') (py '' Ana#EUW '')
     example_bot
     = (Inr PlayerSet,
        \<lparr>data = Some [(py ''Ana'', ana_record)], data_file = Holds (Some [(py ''Ana'', ana_record)]),
         trace = [Request (account_base_europe
                           @ py ''/riot/account/v1/accounts/by-riot-id/Ana/EUW'')]\<rparr>)
   \<and> resolve_puuid_from_riot_id (\<lambda>s. s) no_float account_net
        (sanitize_user_key (\<lambda>s. s) (py '' Ana#EUW '')) (trace example_bot)
       = (Inr (PStr (py ''puuid-a'')),
          [Request (account_base_europe @ py ''/riot/account/v1/accounts/by-riot-id/Ana/EUW'')])
   \<and> py ''RGAPI-key'' \<noteq> []
   \<and> truthy (PStr (py ''puuid-a''))
   \<and> data_file \<lparr>data = Some [(py ''Ana'', ana_record)],
                 data_file = Holds (Some [(py ''Ana'', ana_record)]),
                 trace = [Request (account_base_europe
                                   @ py ''/riot/account/v1/accounts/by-riot-id/Ana/EUW'')]\<rparr>
       = Holds (data \<lparr>data = Some [(py ''Ana'', ana_record)],
                      data_file = Holds (Some [(py ''Ana'', ana_record)]),
                      trace = [Request (account_base_europe
                                        @ py ''/riot/account/v1/accounts/by-riot-id/Ana/EUW'')]\<rparr>)"
proof -
  let ?st' = "\<lparr>data = Some [(py ''Ana'', ana_record)],
               data_file = Holds (Some [(py ''Ana'', ana_record)]),
               trace = [Request (account_base_europe
                                 @ py ''/riot/account/v1/accounts/by-riot-id/Ana/EUW'')]\<rparr>"
  have e: "setplayer (\<lambda>s. s) no_float account_net WriteOk (py ''RGAPI-key'') (py ''Ana'')
             (py '' Ana#EUW '') example_bot = (Inr PlayerSet, ?st')"
    by code_simp
  have r: "resolve_puuid_from_riot_id (\<lambda>s. s) no_float account_net
        (sanitize_user_key (\<lambda>s. s) (py '' Ana#EUW '')) (trace example_bot)
       = (Inr (PStr (py ''puuid-a'')),
          [Request (account_base_europe @ py ''/riot/account/v1/accounts/by-riot-id/Ana/EUW'')])"
    by code_simp
  have k: "py ''RGAPI-key'' \<noteq> []" by (rule py_nonempty)
  have t: "truthy (PStr (py ''puuid-a''))" by (simp add: py_nonempty)
  from setplayer_outcomes[OF e r] k t have "data_file ?st' = Holds (data ?st')" by blast
  with e r k t show ?thesis by blast
qed

text \<open>
  C8 as stated fails when the write fails: with the file not writable, the command ends
  in an \<open>OSError\<close>, the roster in memory holds the new record of \<open>Ana\<close>, and the file
  still holds the empty roster. The operation has neither succeeded nor left the prior
  state untouched.
\<close>

theorem setplayer_write_failure_counterexample:
  "setplayer (\<lambda>s. s) no_float account_net OpenFails (py ''RGAPI-key'') (py ''Ana'') (py '' Ana#EUW '')
     \<lparr>data = Some [], data_file = Holds (Some []), trace = []\<rparr>
     = (Inl OSError,
        \<lparr>data = Some [(py ''Ana'', ana_record)], data_file = Holds (Some []),
         trace = [Request (account_base_europe
                           @ py ''/riot/account/v1/accounts/by-riot-id/Ana/EUW'')]\<rparr>)"
  by code_simp

section \<open>Rows of a snapshot\<close>

text \<open>The trace of the loop does not depend on the rows built so far.\<close>

lemma snapshot_loop_trace_out:
  "snd (snapshot_loop pyfloat net queue players out tr)
     = snd (snapshot_loop pyfloat net queue players out' tr)"
proof (induction players arbitrary: out out' tr)
  case Nil
  show ?case by simp
next
  case (Cons rec rest)
  obtain name cfg where rec: "rec = (name, cfg)" by (cases rec)
  show ?case
  proof (cases "truthy (dict_get cfg (py ''puuid'') PNone)")
    case False
    then show ?thesis
      using Cons.IH[of "AList.update name None out" tr "AList.update name None out'"]
      by (simp add: rec Let_def)
  next
    case True
    obtain v tr' where f: "fetch_entry pyfloat net queue (dict_get cfg (py ''puuid'') PNone) tr = (v, tr')"
      by (cases "fetch_entry pyfloat net queue (dict_get cfg (py ''puuid'') PNone) tr")
    show ?thesis
      using True f Cons.IH[of "AList.update name v out" "tr' @ [Sleep 0.2]" "AList.update name v out'"]
      by (simp add: rec Let_def)
  qed
qed

text \<open>
  Every row is the record's own: its name, and \<open>None\<close> without a puuid or else what
  the fetch for its puuid gives at the trace the loop has reached when it comes to the
  record, which is the trace of the loop over the records before it.
\<close>

lemma snapshot_loop_own_rows:
  assumes "distinct (map fst players)" and "fst ` set players \<inter> fst ` set out = {}"
  shows "\<exists>new. fst (snapshot_loop pyfloat net queue players out tr) = out @ new
           \<and> length new = length players
           \<and> (\<forall>i<length players.
                 new ! i =
                   (fst (players ! i),
                    (let puuid = dict_get (snd (players ! i)) (py ''puuid'') PNone
                     in if \<not> truthy puuid then None
                        else fst (fetch_entry pyfloat net queue puuid
                                    (snd (snapshot_loop pyfloat net queue (take i players) [] tr))))))"
  using assms
proof (induction players arbitrary: out tr)
  case Nil
  show ?case by simp
next
  case (Cons rec rest)
  obtain name cfg where rec: "rec = (name, cfg)" by (cases rec)
  let ?puuid = "dict_get cfg (py ''puuid'') PNone"
  let ?row = "\<lambda>players tr i.
                (fst (players ! i),
                 (let puuid = dict_get (snd (players ! i)) (py ''puuid'') PNone
                  in if \<not> truthy puuid then None
                     else fst (fetch_entry pyfloat net queue puuid
                                 (snd (snapshot_loop pyfloat net queue (take i players) [] tr)))))"
  from Cons.prems rec have fresh: "name \<notin> fst ` set out" by auto
  from Cons.prems rec have d: "distinct (map fst rest)" and nr: "name \<notin> fst ` set rest" by auto
  have disj: "\<And>v. fst ` set rest \<inter> fst ` set (out @ [(name, v)]) = {}"
    using Cons.prems(2) nr by auto
  define v where "v = (if \<not> truthy ?puuid then None else fst (fetch_entry pyfloat net queue ?puuid tr))"
  define tr1 where "tr1 = (if \<not> truthy ?puuid then tr
                           else snd (fetch_entry pyfloat net queue ?puuid tr) @ [Sleep 0.2])"
  have step: "snapshot_loop pyfloat net queue (rec # rest') out' tr
                = snapshot_loop pyfloat net queue rest' (AList.update name v out') tr1" for out' rest'
    by (simp add: rec v_def tr1_def Let_def split: prod.splits)
  from Cons.IH[OF d disj[of v], of tr1] obtain new
    where new: "fst (snapshot_loop pyfloat net queue rest (out @ [(name, v)]) tr1)
                  = (out @ [(name, v)]) @ new"
      and len: "length new = length rest"
      and rows: "\<forall>i<length rest. new ! i = ?row rest tr1 i"
    by blast
  have 1: "fst (snapshot_loop pyfloat net queue (rec # rest) out tr) = out @ ((name, v) # new)"
    using new fresh by (simp add: step update_fresh)
  have 2: "length ((name, v) # new) = length (rec # rest)" using len by simp
  have 3: "((name, v) # new) ! i = ?row (rec # rest) tr i" if i: "i < length (rec # rest)" for i
  proof (cases i)
    case 0
    then show ?thesis by (simp add: rec v_def Let_def)
  next
    case (Suc j)
    with i have j: "j < length rest" by simp
    have "snd (snapshot_loop pyfloat net queue (take i (rec # rest)) [] tr)
            = snd (snapshot_loop pyfloat net queue (take j rest) (AList.update name v []) tr1)"
      by (simp add: Suc step)
    also have "\<dots> = snd (snapshot_loop pyfloat net queue (take j rest) [] tr1)"
      by (rule snapshot_loop_trace_out)
    finally have t: "snd (snapshot_loop pyfloat net queue (take i (rec # rest)) [] tr)
            = snd (snapshot_loop pyfloat net queue (take j rest) [] tr1)" .
    have "((name, v) # new) ! i = new ! j" by (simp add: Suc)
    also have "\<dots> = ?row rest tr1 j" using rows j by blast
    also have "\<dots> = ?row (rec # rest) tr i" by (simp only: t) (simp add: Suc)
    finally show ?thesis .
  qed
  from 1 2 3 show ?case by blast
qed

lemma fetch_snapshot_own_rows:
  assumes "distinct (map fst players)" and "i < length players"
  shows "fst (fetch_snapshot pyfloat net queue players tr) ! i =
           (fst (players ! i),
            (let puuid = dict_get (snd (players ! i)) (py ''puuid'') PNone
             in if \<not> truthy puuid then None
                else fst (fetch_entry pyfloat net queue puuid
                            (snd (fetch_snapshot pyfloat net queue (take i players) tr)))))"
  unfolding fetch_snapshot_def
  using snapshot_loop_own_rows[OF assms(1), of "[]" pyfloat net queue tr] assms(2)
  by auto

lemma fetch_snapshot_length:
  assumes "distinct (map fst players)"
  shows "length (fst (fetch_snapshot pyfloat net queue players tr)) = length players"
  using snapshot_loop_own_rows[OF assms, of "[]" pyfloat net queue tr]
  by (auto simp: fetch_snapshot_def)

lemma fetch_entry_fst:
  "fst (fetch_entry pyfloat net queue puuid tr)
     = (case fst (league_entries_by_puuid_euw pyfloat net puuid tr) of
          Inl err \<Rightarrow> None
        | Inr entries \<Rightarrow>
            (case pick_queue_entry entries queue of Inl err \<Rightarrow> None | Inr picked \<Rightarrow> picked))"
  by (simp add: fetch_entry_def split: prod.splits sum.splits)

lemma pick_queue_entry_empty: "pick_queue_entry (JArray []) queue = Inr None"
  by (simp add: pick_queue_entry_def)

lemma fetch_entry_definitive:
  assumes "definitive_failure (net (league_url puuid) (request_count tr))"
  shows "fst (fetch_entry pyfloat net queue puuid tr) = None"
proof -
  have two: "(2::nat) = Suc (Suc 0)" by simp
  have "fst (league_entries_by_puuid_euw pyfloat net puuid tr) = Inr (JArray [])"
    using get_loop_definitive[of net "league_url puuid" tr pyfloat 0 "Suc 0"] assms
    by (simp add: league_entries_fst client_get_def two)
  then show ?thesis by (simp add: fetch_entry_fst pick_queue_entry_empty)
qed

lemma fetch_entry_two_failures:
  assumes "\<not> succeeds (net (league_url puuid) (request_count tr))"
    and "\<not> succeeds (net (league_url puuid) (Suc (request_count tr)))"
  shows "fst (fetch_entry pyfloat net queue puuid tr) = None"
proof -
  have "fst (league_entries_by_puuid_euw pyfloat net puuid tr) = Inr (JArray [])"
    using get_loop_two_failures[of net "league_url puuid" tr pyfloat 0] assms
    by (simp add: league_entries_fst client_get_def)
  then show ?thesis by (simp add: fetch_entry_fst pick_queue_entry_empty)
qed

lemma fetch_entry_first_list:
  assumes "net (league_url puuid) (request_count tr) = Response st ra (Some (JArray xs))"
    and "st < 400"
  shows "fst (fetch_entry pyfloat net queue puuid tr)
           = (case pick_in_list xs queue of Inl err \<Rightarrow> None | Inr picked \<Rightarrow> picked)"
proof -
  have two: "(2::nat) = Suc (Suc 0)" by simp
  have "fst (league_entries_by_puuid_euw pyfloat net puuid tr) = Inr (JArray xs)"
    using get_loop_success[of net "league_url puuid" tr st ra "JArray xs" pyfloat 0 "Suc 0"] assms
    by (cases xs) (simp_all add: league_entries_fst client_get_def two)
  then show ?thesis by (simp add: fetch_entry_fst pick_queue_entry_def)
qed

lemma pick_in_list_no_match:
  assumes "\<not> list_ex (\<lambda>x. case x of
                           JObject e \<Rightarrow> map_of e (py ''queueType'') = Some (PStr queue)
                         | _ \<Rightarrow> False) xs"
  shows "pick_in_list xs queue = Inr None \<or> pick_in_list xs queue = Inl AttributeError"
  using assms by (induction xs queue rule: pick_in_list.induct) auto

lemma fetch_entry_no_match:
  assumes "net (league_url puuid) (request_count tr) = Response st ra (Some (JArray xs))"
    and "st < 400"
    and "\<not> list_ex (\<lambda>x. case x of
                           JObject e \<Rightarrow> map_of e (py ''queueType'') = Some (PStr queue)
                         | _ \<Rightarrow> False) xs"
  shows "fst (fetch_entry pyfloat net queue puuid tr) = None"
  using fetch_entry_first_list[of net puuid tr st ra xs pyfloat queue] assms(1,2)
    pick_in_list_no_match[OF assms(3)]
  by auto

text \<open>On a network whose answers do not change with time, a fetch does not depend on the trace.\<close>

lemma get_loop_stationary:
  assumes "\<forall>k k'. net url k = net url k'"
  shows "fst (get_loop pyfloat net url i n tr) = fst (get_loop pyfloat net url i n tr')"
proof (induction n arbitrary: i tr tr')
  case 0
  show ?case by simp
next
  case (Suc n)
  from assms have o: "net url (request_count tr) = net url (request_count tr')" by blast
  show ?case
  proof (cases "try_body pyfloat (net url (request_count tr')) i")
    case (Inl err)
    with o show ?thesis by simp
  next
    case (Inr a)
    show ?thesis
    proof (cases a)
      case (Return v)
      with Inr o show ?thesis by simp
    next
      case (Continue w)
      with Inr o Suc.IH[of "Suc i" "tr @ [Request url, Sleep w]" "tr' @ [Request url, Sleep w]"]
      show ?thesis by simp
    qed
  qed
qed

lemma fetch_entry_stationary:
  assumes "\<forall>url k k'. net url k = net url k'"
  shows "fst (fetch_entry pyfloat net queue puuid tr) = fst (fetch_entry pyfloat net queue puuid tr')"
proof -
  from assms have "\<forall>k k'. net (league_url puuid) k = net (league_url puuid) k'" by blast
  with get_loop_stationary[of net "league_url puuid" pyfloat 0 2 tr tr']
  show ?thesis by (simp add: fetch_entry_fst league_entries_fst client_get_def)
qed

text \<open>
  C9. A roster is a dict, so its names are distinct. The snapshot then has exactly one
  row for every roster record, in roster order and under the record's name, and every
  row is the record's own: \<open>None\<close> when the record has no cached puuid, and otherwise
  what the fetch for that record's puuid gives at the point the loop has reached, the
  trace of the loop over the records before it. Nothing else about the other records
  enters a row; on a network whose answers do not change from one request to the next
  the row is the fetch for the record's puuid taken alone. The fetch of a record gives
  \<open>None\<close> when its first request fails for good and when neither of its two attempts
  succeeds; after a first response with a list it gives the first entry of the list for
  the requested queue, and \<open>None\<close> when the list has no entry for that queue. An
  absent entry is rendered as \<open>*Unranked*\<close>.
\<close>

theorem snapshot_covers_roster:
  assumes "distinct (map fst players)"
  shows "map fst (fst (fetch_snapshot pyfloat net queue players tr)) = map fst players
         \<and> (\<forall>i<length players.
               fst (fetch_snapshot pyfloat net queue players tr) ! i =
                 (fst (players ! i),
                  (let puuid = dict_get (snd (players ! i)) (py ''puuid'') PNone
                   in if \<not> truthy puuid then None
                      else fst (fetch_entry pyfloat net queue puuid
                                  (snd (fetch_snapshot pyfloat net queue (take i players) tr))))))
         \<and> ((\<forall>url k k'. net url k = net url k') \<longrightarrow>
              (\<forall>i<length players.
                 snd (fst (fetch_snapshot pyfloat net queue players tr) ! i) =
                   (let puuid = dict_get (snd (players ! i)) (py ''puuid'') PNone
                    in if \<not> truthy puuid then None
                       else fst (fetch_entry pyfloat net queue puuid []))))
         \<and> (definitive_failure (net (league_url p) (request_count t))
              \<longrightarrow> fst (fetch_entry pyfloat net queue p t) = None)
         \<and> (\<not> succeeds (net (league_url p) (request_count t))
              \<and> \<not> succeeds (net (league_url p) (Suc (request_count t)))
              \<longrightarrow> fst (fetch_entry pyfloat net queue p t) = None)
         \<and> (\<forall>st ra xs. net (league_url p) (request_count t) = Response st ra (Some (JArray xs))
                \<and> st < 400
              \<longrightarrow> fst (fetch_entry pyfloat net queue p t)
                    = (case pick_in_list xs queue of Inl err \<Rightarrow> None | Inr picked \<Rightarrow> picked))
         \<and> (\<forall>st ra xs. net (league_url p) (request_count t) = Response st ra (Some (JArray xs))
                \<and> st < 400
                \<and> \<not> list_ex (\<lambda>x. case x of
                                     JObject e \<Rightarrow> map_of e (py ''queueType'') = Some (PStr queue)
                                   | _ \<Rightarrow> False) xs
              \<longrightarrow> fst (fetch_entry pyfloat net queue p t) = None)
         \<and> list_all2 (\<lambda>rec row. fst row = fst rec \<and> entry_of_record net queue (snd rec) (snd row))
              players (fst (fetch_snapshot pyfloat net queue players tr))
         \<and> compact_rank title None = Inr (py ''*Unranked*'')"
proof -
  let ?snap = "fst (fetch_snapshot pyfloat net queue players tr)"
  have 1: "map fst ?snap = map fst players" by (rule fetch_snapshot_names[OF assms])
  have 2: "\<forall>i<length players.
               ?snap ! i =
                 (fst (players ! i),
                  (let puuid = dict_get (snd (players ! i)) (py ''puuid'') PNone
                   in if \<not> truthy puuid then None
                      else fst (fetch_entry pyfloat net queue puuid
                                  (snd (fetch_snapshot pyfloat net queue (take i players) tr)))))"
    using fetch_snapshot_own_rows[OF assms] by blast
  have 3: "\<forall>i<length players.
                 snd (?snap ! i) =
                   (let puuid = dict_get (snd (players ! i)) (py ''puuid'') PNone
                    in if \<not> truthy puuid then None
                       else fst (fetch_entry pyfloat net queue puuid []))"
    if st: "\<forall>url k k'. net url k = net url k'"
  proof (intro allI impI)
    fix i assume i: "i < length players"
    have "fst (fetch_entry pyfloat net queue (dict_get (snd (players ! i)) (py ''puuid'') PNone)
                 (snd (fetch_snapshot pyfloat net queue (take i players) tr)))
          = fst (fetch_entry pyfloat net queue (dict_get (snd (players ! i)) (py ''puuid'') PNone) [])"
      using fetch_entry_stationary[of net pyfloat queue] st by blast
    with 2 i show "snd (?snap ! i) =
                   (let puuid = dict_get (snd (players ! i)) (py ''puuid'') PNone
                    in if \<not> truthy puuid then None
                       else fst (fetch_entry pyfloat net queue puuid []))"
      by (simp add: Let_def)
  qed
  have 4: "fst (fetch_entry pyfloat net queue p t) = None"
    if "definitive_failure (net (league_url p) (request_count t))"
    using that by (rule fetch_entry_definitive)
  have 5: "fst (fetch_entry pyfloat net queue p t) = None"
    if "\<not> succeeds (net (league_url p) (request_count t))"
       "\<not> succeeds (net (league_url p) (Suc (request_count t)))"
    using that by (rule fetch_entry_two_failures)
  have 6: "fst (fetch_entry pyfloat net queue p t)
             = (case pick_in_list xs queue of Inl err \<Rightarrow> None | Inr picked \<Rightarrow> picked)"
    if "net (league_url p) (request_count t) = Response st ra (Some (JArray xs))" "st < 400"
    for st ra xs
    using that by (rule fetch_entry_first_list)
  have 7: "fst (fetch_entry pyfloat net queue p t) = None"
    if "net (league_url p) (request_count t) = Response st ra (Some (JArray xs))" "st < 400"
       "\<not> list_ex (\<lambda>x. case x of
                           JObject e \<Rightarrow> map_of e (py ''queueType'') = Some (PStr queue)
                         | _ \<Rightarrow> False) xs"
    for st ra xs
    using that by (rule fetch_entry_no_match)
  have 8: "list_all2 (\<lambda>rec row. fst row = fst rec \<and> entry_of_record net queue (snd rec) (snd row))
              players ?snap"
    by (rule fetch_snapshot_rows[OF assms])
  have 9: "compact_rank title None = Inr (py ''*Unranked*'')"
    by (simp add: compact_rank_def)
  from 1 2 3 4 5 6 7 8 9 show ?thesis by blast
qed

text \<open>
  The roster with \<open>D\<close> in front: the requests for \<open>D\<close> fail, its row is \<open>None\<close>, and
  the rows of \<open>B\<close> and \<open>C\<close> after it are their own entries.
\<close>

theorem snapshot_covers_roster_witness:
  "distinct (map fst failing_first_roster)
   \<and> fst (fetch_snapshot no_float example_net DEFAULT_QUEUE failing_first_roster [])
       = [(py ''D'', None), (py ''A'', None), (py ''B'', Some example_gold),
          (py ''C'', Some example_platinum)]
   \<and> map fst (fst (fetch_snapshot no_float example_net DEFAULT_QUEUE failing_first_roster []))
       = map fst failing_first_roster
   \<and> definitive_failure (example_net (league_url (PStr (py ''puuid-d''))) (request_count []))
   \<and> fst (fetch_entry no_float example_net DEFAULT_QUEUE (PStr (py ''puuid-d'')) []) = None
   \<and> (2::nat) < length failing_first_roster
   \<and> fst (fetch_snapshot no_float example_net DEFAULT_QUEUE failing_first_roster []) ! 2
       = (py ''B'',
          fst (fetch_entry no_float example_net DEFAULT_QUEUE (PStr (py ''puuid-b''))
                 (snd (fetch_snapshot no_float example_net DEFAULT_QUEUE
                         (take 2 failing_first_roster) []))))
   \<and> compact_rank (\<lambda>t. t) None = Inr (py ''*Unranked*'')"
proof -
  have d: "distinct (map fst failing_first_roster)" by code_simp
  have e: "fst (fetch_snapshot no_float example_net DEFAULT_QUEUE failing_first_roster [])
       = [(py ''D'', None), (py ''A'', None), (py ''B'', Some example_gold),
          (py ''C'', Some example_platinum)]"
    by code_simp
  have f: "definitive_failure (example_net (league_url (PStr (py ''puuid-d''))) (request_count []))"
    by code_simp
  have l: "(2::nat) < length failing_first_roster" by code_simp
  have b: "failing_first_roster ! 2
             = (py ''B'', [(py ''riot_id'', PStr (py ''Bo#EUW'')),
                           (py ''puuid'', PStr (py ''puuid-b''))])"
    by code_simp
  have p: "dict_get [(py ''riot_id'', PStr (py ''Bo#EUW'')), (py ''puuid'', PStr (py ''puuid-b''))]
             (py ''puuid'') PNone = PStr (py ''puuid-b'')"
    by code_simp
  have t: "truthy (PStr (py ''puuid-b''))" by (simp add: py_nonempty)
  note inst = snapshot_covers_roster[OF d, where pyfloat = no_float and net = example_net
      and queue = DEFAULT_QUEUE and tr = "[]" and p = "PStr (py ''puuid-d'')" and t = "[]"
      and title = "\<lambda>t. t"]
  from inst have 1: "map fst (fst (fetch_snapshot no_float example_net DEFAULT_QUEUE failing_first_roster []))
       = map fst failing_first_roster"
    by blast
  from inst f have 2: "fst (fetch_entry no_float example_net DEFAULT_QUEUE (PStr (py ''puuid-d'')) []) = None"
    by blast
  from inst l have "fst (fetch_snapshot no_float example_net DEFAULT_QUEUE failing_first_roster []) ! 2 =
                 (fst (failing_first_roster ! 2),
                  (let puuid = dict_get (snd (failing_first_roster ! 2)) (py ''puuid'') PNone
                   in if \<not> truthy puuid then None
                      else fst (fetch_entry no_float example_net DEFAULT_QUEUE puuid
                                  (snd (fetch_snapshot no_float example_net DEFAULT_QUEUE
                                          (take 2 failing_first_roster) [])))))"
    by blast
  then have 3: "fst (fetch_snapshot no_float example_net DEFAULT_QUEUE failing_first_roster []) ! 2
       = (py ''B'',
          fst (fetch_entry no_float example_net DEFAULT_QUEUE (PStr (py ''puuid-b''))
                 (snd (fetch_snapshot no_float example_net DEFAULT_QUEUE
                         (take 2 failing_first_roster) []))))"
    by (simp only: b fst_conv snd_conv p Let_def t not_True_eq_False if_False)
  from inst have 4: "compact_rank (\<lambda>t. t) None = Inr (py ''*Unranked*'')" by blast
  from d e 1 f 2 l 3 4 show ?thesis by blast
qed

end
